theory Spec2Isabelle
  imports Complex_Main
begin

section \<open>Python and numpy values\<close>

text \<open>
  The program is one Python class, \<open>ConfusionMatrix\<close> (utils/metric.py), over a numpy
  array. Exceptions are values of \<open>error\<close>; a call that can raise returns
  \<open>error + 'a\<close> with \<open>Inl\<close> for the exception.
\<close>

datatype error = TypeError | IndexError | ValueError

definition and_then :: "error + 'a \<Rightarrow> ('a \<Rightarrow> error + 'b) \<Rightarrow> error + 'b" where
  "and_then m f = (case m of Inl e \<Rightarrow> Inl e | Inr x \<Rightarrow> f x)"

text \<open>
  A \<open>for x in xs\<close> loop whose body updates a loop state and may raise: the first
  exception leaves the loop.
\<close>

fun for_each :: "'a list \<Rightarrow> ('a \<Rightarrow> 's \<Rightarrow> error + 's) \<Rightarrow> 's \<Rightarrow> error + 's" where
  "for_each [] body st = Inr st"
| "for_each (x # xs) body st =
     (case body x st of Inl e \<Rightarrow> Inl e | Inr st' \<Rightarrow> for_each xs body st')"

text \<open>A list comprehension \<open>[f(x) for x in xs]\<close> whose element expression may raise.\<close>

fun comprehension :: "('a \<Rightarrow> error + 'b) \<Rightarrow> 'a list \<Rightarrow> error + 'b list" where
  "comprehension f [] = Inr []"
| "comprehension f (x # xs) =
     (case f x of Inl e \<Rightarrow> Inl e
      | Inr y \<Rightarrow> (case comprehension f xs of Inl e \<Rightarrow> Inl e | Inr ys \<Rightarrow> Inr (y # ys)))"

text \<open>\<open>range(n)\<close>: the integers \<open>0, ..., n - 1\<close>, empty when \<open>n \<le> 0\<close>.\<close>

definition py_range :: "int \<Rightarrow> int list" where
  "py_range n = map int [0..<nat n]"

text \<open>
  A numpy array of one or two dimensions. The cells are float64 values; the program
  only ever stores whole numbers in them (zeros, copies and increments by one), so a
  cell is modelled as an \<open>int\<close>. float64 holds every whole number up to \<open>2 ^ 53\<close>
  exactly; counts beyond that are outside the model.
\<close>

datatype ndarray = Array1 "int list" | Array2 "int list list"

text \<open>
  \<open>np.zeros(shape, dtype)\<close>. The shape is an int (one dimension) or a pair (two
  dimensions). The second positional parameter is the dtype: left out, it is float64;
  a Python int passed there is not a data type and numpy raises TypeError while
  converting the arguments, before anything is allocated. A negative dimension raises
  ValueError. Running out of memory on a very large shape is not modelled.
\<close>

datatype np_shape = Shape1 int | Shape2 int int

datatype np_dtype_arg = DtypeDefault | DtypeInt int

fun np_zeros :: "np_shape \<Rightarrow> np_dtype_arg \<Rightarrow> error + ndarray" where
  "np_zeros sh (DtypeInt k) = Inl TypeError"
| "np_zeros (Shape1 n) DtypeDefault =
     (if n < 0 then Inl ValueError else Inr (Array1 (replicate (nat n) 0)))"
| "np_zeros (Shape2 r c) DtypeDefault =
     (if r < 0 \<or> c < 0 then Inl ValueError
      else Inr (Array2 (replicate (nat r) (replicate (nat c) 0))))"

text \<open>
  An index \<open>i\<close> on an axis of length \<open>n\<close>: \<open>0 \<le> i < n\<close> is position \<open>i\<close>, a negative
  \<open>i \<ge> - n\<close> counts from the end (position \<open>n + i\<close>), anything else raises IndexError.
\<close>

definition np_index :: "nat \<Rightarrow> int \<Rightarrow> error + nat" where
  "np_index n i =
     (if 0 \<le> i \<and> i < int n then Inr (nat i)
      else if i < 0 \<and> - int n \<le> i then Inr (nat (int n + i))
      else Inl IndexError)"

text \<open>
  Reading \<open>a[r][c]\<close> (and \<open>a[r, c]\<close>, which reads the same cell and raises on the same
  indices). On a one-dimensional array \<open>a[r]\<close> is a scalar, and indexing a scalar
  raises IndexError.
\<close>

fun np_getitem2 :: "ndarray \<Rightarrow> int \<Rightarrow> int \<Rightarrow> error + int" where
  "np_getitem2 (Array2 m) r c =
     and_then (np_index (length m) r) (\<lambda>i.
     and_then (np_index (length (m ! i)) c) (\<lambda>j. Inr (m ! i ! j)))"
| "np_getitem2 (Array1 v) r c =
     and_then (np_index (length v) r) (\<lambda>i. Inl IndexError)"

text \<open>
  Writing \<open>a[r][c] = v\<close>: \<open>a[r]\<close> is a view of row \<open>r\<close>, so the write lands in \<open>a\<close>.
  On a one-dimensional array \<open>a[r]\<close> is a scalar, which does not support item
  assignment (TypeError).
\<close>

fun np_setitem2 :: "ndarray \<Rightarrow> int \<Rightarrow> int \<Rightarrow> int \<Rightarrow> error + ndarray" where
  "np_setitem2 (Array2 m) r c v =
     and_then (np_index (length m) r) (\<lambda>i.
     and_then (np_index (length (m ! i)) c) (\<lambda>j.
       Inr (Array2 (m[i := (m ! i)[j := v]]))))"
| "np_setitem2 (Array1 xs) r c v =
     and_then (np_index (length xs) r) (\<lambda>i. Inl TypeError)"

text \<open>\<open>a[r][c] += d\<close>: read the cell, add, write it back through the row view.\<close>

definition np_iadd2 :: "ndarray \<Rightarrow> int \<Rightarrow> int \<Rightarrow> int \<Rightarrow> error + ndarray" where
  "np_iadd2 a r c d =
     and_then (np_getitem2 a r c) (\<lambda>v. np_setitem2 a r c (v + d))"

section \<open>The accumulator\<close>

record ConfusionMatrix =
  num_classes :: int
  confusion_matrix :: ndarray

text \<open>
  \<open>__init__\<close> (lines 9 to 11): \<open>np.zeros(self.num_classes, self.num_classes)\<close> passes
  the class count twice, as the shape and as the dtype.
\<close>

definition ConfusionMatrix_init :: "int \<Rightarrow> error + ConfusionMatrix" where
  "ConfusionMatrix_init n =
     and_then (np_zeros (Shape1 n) (DtypeInt n)) (\<lambda>a.
       Inr \<lparr>num_classes = n, confusion_matrix = a\<rparr>)"

text \<open>\<open>count_predicted\<close> (lines 13 and 14) and \<open>get_count\<close> (lines 16 to 18).\<close>

definition count_predicted :: "ConfusionMatrix \<Rightarrow> int \<Rightarrow> int \<Rightarrow> error + ConfusionMatrix" where
  "count_predicted s ground_truth predicted =
     and_then (np_iadd2 (confusion_matrix s) ground_truth predicted 1) (\<lambda>a.
       Inr (s\<lparr>confusion_matrix := a\<rparr>))"

definition get_count :: "ConfusionMatrix \<Rightarrow> int \<Rightarrow> int \<Rightarrow> error + int" where
  "get_count s ground_truth predicted =
     np_getitem2 (confusion_matrix s) ground_truth predicted"

text \<open>A sequence of \<open>count_predicted\<close> calls on one accumulator, in order.\<close>

fun count_all :: "ConfusionMatrix \<Rightarrow> (int \<times> int) list \<Rightarrow> error + ConfusionMatrix" where
  "count_all s [] = Inr s"
| "count_all s ((g, p) # calls) =
     (case count_predicted s g p of Inl e \<Rightarrow> Inl e | Inr s' \<Rightarrow> count_all s' calls)"

subsection \<open>Well-formed states\<close>

text \<open>
  The data model's invariant: the table is a two-dimensional array with \<open>num_classes\<close>
  rows of \<open>num_classes\<close> cells. \<open>zero_table n\<close> is the array \<open>np.zeros((n, n))\<close>
  builds, and \<open>zero_state n\<close> the accumulator of \<open>n\<close> classes holding it.
\<close>

definition square :: "nat \<Rightarrow> int list list \<Rightarrow> bool" where
  "square n m \<longleftrightarrow> length m = n \<and> (\<forall>row \<in> set m. length row = n)"

definition well_formed :: "ConfusionMatrix \<Rightarrow> bool" where
  "well_formed s \<longleftrightarrow>
     0 \<le> num_classes s \<and>
     (case confusion_matrix s of
        Array1 v \<Rightarrow> False
      | Array2 m \<Rightarrow> square (nat (num_classes s)) m)"

definition zero_table :: "nat \<Rightarrow> int list list" where
  "zero_table n = replicate n (replicate n 0)"

definition zero_state :: "int \<Rightarrow> ConfusionMatrix" where
  "zero_state n = \<lparr>num_classes = n, confusion_matrix = Array2 (zero_table (nat n))\<rparr>"

text \<open>The sum over all cells of a table.\<close>

fun cells_sum :: "ndarray \<Rightarrow> int" where
  "cells_sum (Array2 m) = sum_list (map sum_list m)"
| "cells_sum (Array1 v) = sum_list v"

text \<open>The position a numpy index denotes once negative indices are wrapped.\<close>

definition wrapped :: "int \<Rightarrow> int \<Rightarrow> nat" where
  "wrapped n i = nat (if i < 0 then n + i else i)"

section \<open>Per-class intersection over union\<close>

text \<open>
  The quotient \<open>float(a) / b\<close> of two whole numbers. The result is a float64: the exact
  quotient is modelled (its rounding to float64 is not). The divisor is a numpy float64
  wherever it can be zero, so a zero divisor gives an infinity or NaN (with a warning)
  and no exception.
\<close>

datatype pyfloat = Finite rat | PosInf | NegInf | NaN

definition true_div :: "int \<Rightarrow> int \<Rightarrow> pyfloat" where
  "true_div a b =
     (if b \<noteq> 0 then Finite (of_int a / of_int b)
      else if 0 < a then PosInf else if a < 0 then NegInf else NaN)"

text \<open>
  Lines 31 to 35: the off-diagonal sum of every row, accumulated in a Python list by two
  nested loops. Lines 36 to 42: the same for every column.
\<close>

definition errors_by_row :: "ndarray \<Rightarrow> int \<Rightarrow> error + int list" where
  "errors_by_row cm n =
     for_each (py_range n) (\<lambda>row.
       for_each (py_range n) (\<lambda>column errs.
         if row \<noteq> column
         then and_then (np_getitem2 cm row column) (\<lambda>v.
                Inr (errs[nat row := errs ! nat row + v]))
         else Inr errs))
       (replicate (nat n) 0)"

definition errors_by_column :: "ndarray \<Rightarrow> int \<Rightarrow> error + int list" where
  "errors_by_column cm n =
     for_each (py_range n) (\<lambda>column.
       for_each (py_range n) (\<lambda>row errs.
         if row \<noteq> column
         then and_then (np_getitem2 cm row column) (\<lambda>v.
                Inr (errs[nat column := errs ! nat column + v]))
         else Inr errs))
       (replicate (nat n) 0)"

text \<open>Lines 44 to 52: the divisor of every class, forced to 1 where the diagonal is 0.\<close>

definition divisors :: "int list \<Rightarrow> int list \<Rightarrow> int list \<Rightarrow> int \<Rightarrow> int list" where
  "divisors matrix_diagonal by_row by_column n =
     fold (\<lambda>i divisor.
        let divisor = divisor[nat i := matrix_diagonal ! nat i + by_row ! nat i + by_column ! nat i]
        in if matrix_diagonal ! nat i = 0 then divisor[nat i := 1] else divisor)
       (py_range n) (replicate (nat n) 0)"

definition get_intersection_union_per_class :: "ConfusionMatrix \<Rightarrow> error + pyfloat list" where
  "get_intersection_union_per_class s =
     (let n = num_classes s; cm = confusion_matrix s in
      and_then (comprehension (\<lambda>i. np_getitem2 cm i i) (py_range n)) (\<lambda>matrix_diagonal.
      and_then (errors_by_row cm n) (\<lambda>errors_summed_by_row.
      and_then (errors_by_column cm n) (\<lambda>errors_summed_by_column.
        let divisor = divisors matrix_diagonal errors_summed_by_row errors_summed_by_column n
        in Inr (map (\<lambda>i. true_div (matrix_diagonal ! nat i) (divisor ! nat i)) (py_range n))))))"

section \<open>Bulk load from two label files\<close>

text \<open>
  Lines 87 to 92, the resize inside the load: a zero table of the larger size, the old
  cells copied into it one by one, then both fields replaced. An exception on the way
  leaves the accumulator as it was (\<open>b\<close> is a local until line 91).
\<close>

definition resize :: "ConfusionMatrix \<Rightarrow> int \<Rightarrow> error + ConfusionMatrix" where
  "resize s max_label =
     and_then (np_zeros (Shape2 max_label max_label) DtypeDefault) (\<lambda>b0.
     and_then
       (for_each (py_range (num_classes s)) (\<lambda>row.
          for_each (py_range (num_classes s)) (\<lambda>column b.
            and_then (np_getitem2 (confusion_matrix s) row column) (\<lambda>v.
              np_setitem2 b row column v)))
          b0)
       (\<lambda>b. Inr (s\<lparr>confusion_matrix := b, num_classes := max_label\<rparr>)))"

text \<open>
  One pass of the loop body (lines 77 to 97) on a pair of lines. A line is given by what
  \<open>int(line)\<close> makes of it: \<open>Some k\<close>, or \<open>None\<close> where \<open>int\<close> raises ValueError. The
  body ends in one of three ways: \<open>continue\<close> (line 95), a \<open>return\<close> (lines 83 and 97)
  or an exception; each carries the accumulator as the pass leaves it.
\<close>

datatype step = Continue ConfusionMatrix | Return int ConfusionMatrix | Raise error ConfusionMatrix

definition process_pair :: "ConfusionMatrix \<Rightarrow> int option \<times> int option \<Rightarrow> step" where
  "process_pair s pair =
     (case fst pair of
        None \<Rightarrow> Raise ValueError s
      | Some label_gt \<Rightarrow>
     (case snd pair of
        None \<Rightarrow> Raise ValueError s
      | Some label_cl_ \<Rightarrow>
     (let label_cl = max (min label_cl_ 10000) 1 in
      if label_cl_ \<noteq> label_cl then Return (- 1) s
      else
       (let max_label = max label_gt label_cl in
        case (if max_label > num_classes s then resize s max_label else Inr s) of
          Inl e \<Rightarrow> Raise e s
        | Inr s1 \<Rightarrow>
            if label_gt = 0 then Continue s1
            else
             (case np_iadd2 (confusion_matrix s1) (label_gt - 1) (label_cl - 1) 1 of
                Inl e \<Rightarrow> Raise e s1
              | Inr a \<Rightarrow> Return 0 (s1\<lparr>confusion_matrix := a\<rparr>))))))"

text \<open>
  The loop over the zipped lines. A call that runs off the end of the loop returns
  Python's \<open>None\<close>.
\<close>

datatype outcome = Returned int | ReturnedNone | Raised error

fun load_loop :: "ConfusionMatrix \<Rightarrow> (int option \<times> int option) list \<Rightarrow> outcome \<times> ConfusionMatrix" where
  "load_loop s [] = (ReturnedNone, s)"
| "load_loop s (pair # rest) =
     (case process_pair s pair of
        Continue s' \<Rightarrow> load_loop s' rest
      | Return r s' \<Rightarrow> (Returned r, s')
      | Raise e s' \<Rightarrow> (Raised e, s'))"

text \<open>
  \<open>build_conf_matrix_from_file\<close> (lines 73 to 97) on the contents of the two files, line
  by line; \<open>zip\<close> stops at the end of the shorter one.
\<close>

definition build_conf_matrix_from_file ::
  "ConfusionMatrix \<Rightarrow> int option list \<Rightarrow> int option list \<Rightarrow> outcome \<times> ConfusionMatrix" where
  "build_conf_matrix_from_file s ground_truth_file classified_file =
     load_loop s (zip ground_truth_file classified_file)"

section \<open>Rendering the table\<close>

text \<open>Decimal digits of a whole number, as \<open>%.0f\<close> prints a whole float.\<close>

definition digit_char :: "nat \<Rightarrow> char" where
  "digit_char d = char_of (48 + d)"

fun decimal :: "nat \<Rightarrow> string" where
  "decimal n = (if n < 10 then [digit_char n] else decimal (n div 10) @ [digit_char (n mod 10)])"

declare decimal.simps [simp del]

definition str_whole :: "int \<Rightarrow> string" where
  "str_whole v = (if v < 0 then CHR ''-'' # decimal (nat (- v)) else decimal (nat v))"

text \<open>\<open>"%{w}s" % x\<close> and \<open>"%{w}.0f" % v\<close>: right-justified in a field of at least \<open>w\<close>.\<close>

definition percent_s :: "nat \<Rightarrow> string \<Rightarrow> string" where
  "percent_s w x = replicate (w - length x) CHR '' '' @ x"

definition percent_f0 :: "nat \<Rightarrow> int \<Rightarrow> string" where
  "percent_f0 w v = percent_s w (str_whole v)"

definition columnwidth :: "string list \<Rightarrow> nat" where
  "columnwidth labels = fold max (map length labels) 5"

definition empty_cell :: "nat \<Rightarrow> string" where
  "empty_cell w = replicate w CHR '' ''"

definition newline :: string where
  "newline = [CHR 0x0A]"

text \<open>
  Lines 115 to 121: the text of cell \<open>(i, j)\<close>. \<open>hide_threshold\<close> is \<open>None\<close> or a number,
  and line 120 tests its truth value: \<open>None\<close> and 0 are both false.
\<close>

definition cm_cell ::
  "ndarray \<Rightarrow> nat \<Rightarrow> bool \<Rightarrow> bool \<Rightarrow> int option \<Rightarrow> int \<Rightarrow> int \<Rightarrow> error + string" where
  "cm_cell cm w hide_zeroes hide_diagonal hide_threshold i j =
     and_then (np_getitem2 cm i j) (\<lambda>v.
       let cell = percent_f0 w v;
           cell = (if hide_zeroes then (if v \<noteq> 0 then cell else empty_cell w) else cell);
           cell = (if hide_diagonal then (if i \<noteq> j then cell else empty_cell w) else cell);
           cell = (case hide_threshold of
                     None \<Rightarrow> cell
                   | Some t \<Rightarrow> if t \<noteq> 0 then (if v > t then cell else empty_cell w) else cell)
       in Inr cell)"

text \<open>Lines 114 to 122: the cells of row \<open>i\<close>, one per label.\<close>

definition cm_row ::
  "ndarray \<Rightarrow> nat \<Rightarrow> bool \<Rightarrow> bool \<Rightarrow> int option \<Rightarrow> int \<Rightarrow> int \<Rightarrow> error + string list" where
  "cm_row cm w hide_zeroes hide_diagonal hide_threshold n i =
     comprehension (cm_cell cm w hide_zeroes hide_diagonal hide_threshold i) (py_range n)"

text \<open>The grid of cell texts, one row per label (lines 112 to 123 without the layout).\<close>

definition cm_grid ::
  "ndarray \<Rightarrow> string list \<Rightarrow> bool \<Rightarrow> bool \<Rightarrow> int option \<Rightarrow> error + string list list" where
  "cm_grid cm labels hide_zeroes hide_diagonal hide_threshold =
     comprehension
       (cm_row cm (columnwidth labels) hide_zeroes hide_diagonal hide_threshold (int (length labels)))
       (py_range (int (length labels)))"

text \<open>The printed lines: the header (lines 107 to 110), then a label and its cells per row.\<close>

definition header_line :: "string list \<Rightarrow> string" where
  "header_line labels =
     ''    '' @ empty_cell (columnwidth labels) @ '' '' @
     concat (map (\<lambda>label. percent_s (columnwidth labels) label @ '' '') labels) @ newline"

definition row_line :: "nat \<Rightarrow> string \<Rightarrow> string list \<Rightarrow> string" where
  "row_line w label1 cells =
     ''    '' @ percent_s w label1 @ '' '' @ concat (map (\<lambda>cell. cell @ '' '') cells) @ newline"

text \<open>
  \<open>print_cm\<close> (lines 99 to 123). The result is the text written to standard output when
  the call returns, or the exception (the text written before it is not kept), together
  with the accumulator after the call: the method reads the table and assigns nothing.
\<close>

definition print_cm ::
  "ConfusionMatrix \<Rightarrow> string list \<Rightarrow> bool \<Rightarrow> bool \<Rightarrow> int option \<Rightarrow> (error + string) \<times> ConfusionMatrix" where
  "print_cm s labels hide_zeroes hide_diagonal hide_threshold =
     (and_then (cm_grid (confusion_matrix s) labels hide_zeroes hide_diagonal hide_threshold)
        (\<lambda>grid. Inr (header_line labels @
                      concat (map (\<lambda>(label1, cells). row_line (columnwidth labels) label1 cells)
                                  (zip labels grid)))),
      s)"

section \<open>Indexing and well-formed tables\<close>

lemma and_then_Inr [simp]: "and_then (Inr x) f = f x"
  by (simp add: and_then_def)

lemma and_then_Inl [simp]: "and_then (Inl e) f = Inl e"
  by (simp add: and_then_def)

lemma np_index_wrapped:
  "- int n \<le> i \<Longrightarrow> i < int n \<Longrightarrow> np_index n i = Inr (wrapped (int n) i)"
  by (auto simp: np_index_def wrapped_def)

lemma wrapped_less: "- int n \<le> i \<Longrightarrow> i < int n \<Longrightarrow> wrapped (int n) i < n"
  by (auto simp: wrapped_def)

lemma wrapped_nat [simp]: "wrapped n (int i) = i"
  by (simp add: wrapped_def)

lemma square_nth: "square n m \<Longrightarrow> i < n \<Longrightarrow> length (m ! i) = n"
  by (simp add: square_def)

lemma square_update:
  "square n m \<Longrightarrow> i < n \<Longrightarrow> square n (m[i := (m ! i)[j := v]])"
  by (auto simp: square_def dest!: set_update_subset_insert [THEN subsetD])

lemma square_zero_table: "square n (zero_table n)"
  by (simp add: square_def zero_table_def)

lemma well_formed_zero_state: "0 \<le> n \<Longrightarrow> well_formed (zero_state n)"
  by (simp add: well_formed_def zero_state_def square_zero_table)

text \<open>The call of line 87, \<open>np.zeros((n, n))\<close>, builds the zero table.\<close>

lemma np_zeros_square:
  "0 \<le> n \<Longrightarrow> np_zeros (Shape2 n n) DtypeDefault = Inr (Array2 (zero_table (nat n)))"
  by (simp add: zero_table_def)

lemma np_getitem2_wrapped:
  assumes "square n m" "- int n \<le> r" "r < int n" "- int n \<le> c" "c < int n"
  shows "np_getitem2 (Array2 m) r c = Inr (m ! wrapped (int n) r ! wrapped (int n) c)"
  using assms
  by (simp add: and_then_def np_index_wrapped square_nth wrapped_less square_def [of n m])

lemma np_setitem2_wrapped:
  assumes "square n m" "- int n \<le> r" "r < int n" "- int n \<le> c" "c < int n"
  shows "np_setitem2 (Array2 m) r c v =
    Inr (Array2 (m[wrapped (int n) r := (m ! wrapped (int n) r)[wrapped (int n) c := v]]))"
  using assms
  by (simp add: and_then_def np_index_wrapped square_nth wrapped_less square_def [of n m])

lemma np_iadd2_wrapped:
  assumes "square n m" "- int n \<le> r" "r < int n" "- int n \<le> c" "c < int n"
  shows "np_iadd2 (Array2 m) r c d =
    Inr (Array2 (m[wrapped (int n) r := (m ! wrapped (int n) r)[wrapped (int n) c :=
          m ! wrapped (int n) r ! wrapped (int n) c + d]]))"
  by (simp only: np_iadd2_def np_getitem2_wrapped [OF assms] np_setitem2_wrapped [OF assms]
      and_then_def sum.case)

declare np_getitem2.simps [simp del] np_setitem2.simps [simp del]

section \<open>The constructor\<close>

text \<open>
  Claim C1 (the code departs from it): constructing the accumulator with a class count
  of at least 1 should succeed and give a zero table of that many rows and columns.
  On the code the constructor returns no accumulator at all: for every class count
  \<open>np.zeros\<close> is handed the count as its dtype and raises TypeError.
\<close>

theorem ConfusionMatrix_init_raises: "ConfusionMatrix_init n = Inl TypeError"
  by (simp add: ConfusionMatrix_init_def and_then_def)

section \<open>Counting single predictions\<close>

lemma count_predicted_wrapped:
  assumes "confusion_matrix s = Array2 m" "square n m"
    and "- int n \<le> g" "g < int n" "- int n \<le> p" "p < int n"
  shows "count_predicted s g p =
    Inr (s\<lparr>confusion_matrix := Array2 (m[wrapped (int n) g := (m ! wrapped (int n) g)[wrapped (int n) p :=
          m ! wrapped (int n) g ! wrapped (int n) p + 1]])\<rparr>)"
  by (simp only: count_predicted_def assms(1) np_iadd2_wrapped [OF assms(2-)] and_then_def sum.case)

lemma sum_list_update_int:
  fixes xs :: "int list"
  shows "j < length xs \<Longrightarrow> sum_list (xs[j := v]) = sum_list xs - xs ! j + v"
  by (induction xs arbitrary: j) (auto split: nat.splits)

lemma cells_sum_update:
  fixes m :: "int list list"
  assumes "i < length m" "j < length (m ! i)"
  shows "sum_list (map sum_list (m[i := (m ! i)[j := v]])) = sum_list (map sum_list m) - m ! i ! j + v"
proof -
  have "sum_list (map sum_list (m[i := (m ! i)[j := v]]))
      = sum_list ((map sum_list m)[i := sum_list ((m ! i)[j := v])])"
    by (simp add: map_update)
  also have "\<dots> = sum_list (map sum_list m) - sum_list (m ! i) + sum_list ((m ! i)[j := v])"
    using assms by (simp add: sum_list_update_int)
  also have "\<dots> = sum_list (map sum_list m) - m ! i ! j + v"
    using assms by (simp add: sum_list_update_int)
  finally show ?thesis .
qed

lemma count_predicted_sum:
  assumes "confusion_matrix s = Array2 m" "square n m"
    and "- int n \<le> g" "g < int n" "- int n \<le> p" "p < int n"
  shows "\<exists>s' m'. count_predicted s g p = Inr s' \<and> confusion_matrix s' = Array2 m' \<and> square n m'
     \<and> num_classes s' = num_classes s
     \<and> cells_sum (confusion_matrix s') = cells_sum (confusion_matrix s) + 1"
proof -
  let ?i = "wrapped (int n) g" and ?j = "wrapped (int n) p"
  have i: "?i < n" and j: "?j < n" using assms by (simp_all add: wrapped_less)
  have li: "?i < length m" and lj: "?j < length (m ! ?i)"
    using i j assms(2) by (simp_all add: square_def)
  show ?thesis
    using count_predicted_wrapped [OF assms] square_update [OF assms(2) i, of ?j] assms(1)
      cells_sum_update [OF li lj]
    by simp
qed

text \<open>
  Any run of calls with indices in range, from any well-formed accumulator: every call
  succeeds and the sum of the cells grows by the number of calls.
\<close>

lemma count_all_sum:
  assumes "confusion_matrix s = Array2 m" "square n m"
    and "\<forall>(g, p) \<in> set calls. 0 \<le> g \<and> g < int n \<and> 0 \<le> p \<and> p < int n"
  shows "\<exists>s' m'. count_all s calls = Inr s' \<and> confusion_matrix s' = Array2 m' \<and> square n m'
     \<and> num_classes s' = num_classes s
     \<and> cells_sum (confusion_matrix s') = cells_sum (confusion_matrix s) + int (length calls)"
  using assms
proof (induction calls arbitrary: s m)
  case Nil
  then show ?case by simp
next
  case (Cons call calls)
  obtain g p where call: "call = (g, p)" by (cases call)
  have rng: "- int n \<le> g" "g < int n" "- int n \<le> p" "p < int n"
    using Cons.prems(3) call by auto
  obtain s1 m1 where s1: "count_predicted s g p = Inr s1" "confusion_matrix s1 = Array2 m1"
    "square n m1" "num_classes s1 = num_classes s"
    "cells_sum (confusion_matrix s1) = cells_sum (confusion_matrix s) + 1"
    using count_predicted_sum [OF Cons.prems(1,2) rng] by blast
  have rest: "\<forall>(g, p) \<in> set calls. 0 \<le> g \<and> g < int n \<and> 0 \<le> p \<and> p < int n"
    using Cons.prems(3) by simp
  from Cons.IH [OF s1(2,3) rest] obtain s' m' where
    "count_all s1 calls = Inr s'" "confusion_matrix s' = Array2 m'" "square n m'"
    "num_classes s' = num_classes s1"
    "cells_sum (confusion_matrix s') = cells_sum (confusion_matrix s1) + int (length calls)"
    by blast
  then show ?case using s1 call by simp
qed

lemma sum_list_replicate_zero: "sum_list (replicate k (0::int)) = 0"
  by (induction k) simp_all

lemma cells_sum_zero_table: "cells_sum (Array2 (zero_table n)) = 0"
  by (simp add: zero_table_def sum_list_replicate_zero)

text \<open>
  Claim C7: for every finite sequence of \<open>count_predicted\<close> calls with both indices in
  \<open>[0, num_classes)\<close> on a well-formed accumulator, every call succeeds and the sum over
  all cells of the table grows by the number of calls; starting from the accumulator
  whose table is all zero (the table a new accumulator is meant to have), the sum equals
  the number of calls.
\<close>

theorem count_predicted_cells_sum:
  assumes "well_formed s"
    and "\<forall>(g, p) \<in> set calls. 0 \<le> g \<and> g < num_classes s \<and> 0 \<le> p \<and> p < num_classes s"
  shows "\<exists>s'. count_all s calls = Inr s'
           \<and> well_formed s'
           \<and> num_classes s' = num_classes s
           \<and> cells_sum (confusion_matrix s') = cells_sum (confusion_matrix s) + int (length calls)
           \<and> (s = zero_state (num_classes s) \<longrightarrow>
                cells_sum (confusion_matrix s') = int (length calls))"
proof -
  let ?n = "nat (num_classes s)"
  obtain m where m: "confusion_matrix s = Array2 m"
    using assms(1) by (cases "confusion_matrix s") (simp_all add: well_formed_def)
  have n: "0 \<le> num_classes s" and sq: "square ?n m"
    using assms(1) m by (simp_all add: well_formed_def)
  have rng: "\<forall>(g, p) \<in> set calls. 0 \<le> g \<and> g < int ?n \<and> 0 \<le> p \<and> p < int ?n"
    using assms(2) n by auto
  from count_all_sum [OF m sq rng] obtain s' m' where s':
    "count_all s calls = Inr s'" "confusion_matrix s' = Array2 m'" "square ?n m'"
    "num_classes s' = num_classes s"
    "cells_sum (confusion_matrix s') = cells_sum (confusion_matrix s) + int (length calls)"
    by blast
  have wf': "well_formed s'"
    using s'(2,3,4) n by (simp add: well_formed_def)
  have zero: "cells_sum (confusion_matrix s') = int (length calls)"
    if "s = zero_state (num_classes s)"
  proof -
    have "confusion_matrix s = Array2 (zero_table ?n)"
      by (subst that) (simp add: zero_state_def)
    then show ?thesis using s'(5) cells_sum_zero_table [of ?n] by simp
  qed
  show ?thesis using s'(1,4,5) wf' zero by blast
qed

theorem count_predicted_cells_sum_witness:
  "well_formed (zero_state 3)
   \<and> (\<exists>s'. count_all (zero_state 3) [(0, 0), (1, 1), (2, 2), (0, 1), (2, 0)] = Inr s'
         \<and> num_classes s' = 3 \<and> cells_sum (confusion_matrix s') = 5)"
proof -
  have wf: "well_formed (zero_state 3)"
    by (simp add: well_formed_zero_state)
  have n: "num_classes (zero_state 3) = 3"
    by (simp add: zero_state_def)
  have "\<exists>s'. count_all (zero_state 3) [(0, 0), (1, 1), (2, 2), (0, 1), (2, 0)] = Inr s'
      \<and> well_formed s' \<and> num_classes s' = 3
      \<and> cells_sum (confusion_matrix s') = cells_sum (confusion_matrix (zero_state 3)) + 5
      \<and> cells_sum (confusion_matrix s') = 5"
    using count_predicted_cells_sum [OF wf, of "[(0, 0), (1, 1), (2, 2), (0, 1), (2, 0)]"]
    by (simp add: n del: count_all.simps)
  then show ?thesis using wf by blast
qed

text \<open>
  Claim C10: \<open>count_predicted\<close> with a negative index in \<open>[- num_classes, - 1]\<close> for the
  ground truth or for the prediction raises nothing. On a well-formed accumulator, for
  any two indices in \<open>[- num_classes, num_classes)\<close> the call succeeds and adds one to
  the cell at the wrapped positions, where a negative index \<open>i\<close> stands for position
  \<open>num_classes + i\<close>; it is the very call made with the two wrapped, valid indices, so it
  changes the count of a valid pair of classes.
\<close>

theorem count_predicted_negative_index_wraps:
  assumes "well_formed s" and "confusion_matrix s = Array2 m"
    and "- num_classes s \<le> g" "g < num_classes s"
    and "- num_classes s \<le> p" "p < num_classes s"
  shows "\<exists>i j. i < nat (num_classes s) \<and> j < nat (num_classes s)
           \<and> int i = (if g < 0 then num_classes s + g else g)
           \<and> int j = (if p < 0 then num_classes s + p else p)
           \<and> count_predicted s g p = Inr (s\<lparr>confusion_matrix := Array2 (m[i := (m ! i)[j := m ! i ! j + 1]])\<rparr>)
           \<and> count_predicted s g p = count_predicted s (int i) (int j)"
proof -
  let ?n = "nat (num_classes s)"
  have n: "int ?n = num_classes s" and sq: "square ?n m"
    using assms(1,2) by (simp_all add: well_formed_def)
  have rg: "- int ?n \<le> g" "g < int ?n" and rp: "- int ?n \<le> p" "p < int ?n"
    using assms(3-6) n by simp_all
  let ?i = "wrapped (int ?n) g" and ?j = "wrapped (int ?n) p"
  have i: "?i < ?n" and j: "?j < ?n"
    using rg rp by (simp_all only: wrapped_less)
  have ri: "- int ?n \<le> int ?i" "int ?i < int ?n" and rj: "- int ?n \<le> int ?j" "int ?j < int ?n"
    using i j by linarith+
  have "int ?i = (if g < 0 then num_classes s + g else g)"
    using rg n by (simp add: wrapped_def)
  moreover have "int ?j = (if p < 0 then num_classes s + p else p)"
    using rp n by (simp add: wrapped_def)
  moreover have "count_predicted s g p =
      Inr (s\<lparr>confusion_matrix := Array2 (m[?i := (m ! ?i)[?j := m ! ?i ! ?j + 1]])\<rparr>)"
    by (rule count_predicted_wrapped [OF assms(2) sq rg rp])
  moreover have "count_predicted s (int ?i) (int ?j) =
      Inr (s\<lparr>confusion_matrix := Array2 (m[?i := (m ! ?i)[?j := m ! ?i ! ?j + 1]])\<rparr>)"
    using count_predicted_wrapped [OF assms(2) sq ri rj] by (simp only: wrapped_nat)
  ultimately show ?thesis using i j by metis
qed

theorem count_predicted_negative_index_wraps_witness:
  "well_formed (zero_state 3)
   \<and> count_predicted (zero_state 3) (- 1) (- 3) =
       Inr \<lparr>num_classes = 3, confusion_matrix = Array2 [[0, 0, 0], [0, 0, 0], [1, 0, 0]]\<rparr>
   \<and> count_predicted (zero_state 3) (- 1) (- 3) = count_predicted (zero_state 3) 2 0"
proof -
  have wf: "well_formed (zero_state 3)"
    by (simp add: well_formed_zero_state)
  have cm: "confusion_matrix (zero_state 3) = Array2 [[0, 0, 0], [0, 0, 0], [0, 0, 0]]"
    by (simp add: zero_state_def zero_table_def numeral_3_eq_3)
  from count_predicted_negative_index_wraps [OF wf cm, of "- 1" "- 3"]
  obtain i j where ij: "int i = 2" "int j = 0"
    and r: "count_predicted (zero_state 3) (- 1) (- 3) =
         Inr ((zero_state 3)\<lparr>confusion_matrix :=
           Array2 ([[0, 0, 0], [0, 0, 0], [0, 0, 0]][i := ([[0, 0, 0], [0, 0, 0], [0, 0, 0]] ! i)
             [j := [[0, 0, 0], [0, 0, 0], [0, 0, 0]] ! i ! j + 1]])\<rparr>)"
    and e: "count_predicted (zero_state 3) (- 1) (- 3) = count_predicted (zero_state 3) (int i) (int j)"
    by (auto simp: zero_state_def)
  have "i = 2" "j = 0" using ij by simp_all
  then show ?thesis using wf r e
    by (simp add: zero_state_def numeral_2_eq_2)
qed

section \<open>Growing the table\<close>

lemma np_getitem2_nat:
  "square n m \<Longrightarrow> i < n \<Longrightarrow> j < n \<Longrightarrow> np_getitem2 (Array2 m) (int i) (int j) = Inr (m ! i ! j)"
  using np_getitem2_wrapped [of n m "int i" "int j"] by simp

lemma np_setitem2_nat:
  "square n m \<Longrightarrow> i < n \<Longrightarrow> j < n \<Longrightarrow>
   np_setitem2 (Array2 m) (int i) (int j) v = Inr (Array2 (m[i := (m ! i)[j := v]]))"
  using np_setitem2_wrapped [of n m "int i" "int j" v] by simp

lemma nth_update2:
  "square n b \<Longrightarrow> r < n \<Longrightarrow> c < n \<Longrightarrow> g < n \<Longrightarrow> p < n \<Longrightarrow>
   b[r := (b ! r)[c := v]] ! g ! p = (if g = r \<and> p = c then v else b ! g ! p)"
  by (auto simp: square_def nth_list_update)

lemma copy_row:
  assumes "square k m" "k \<le> n" "r < k" "set cols \<subseteq> {..<k}" "square n b"
  shows "\<exists>b'. for_each (map int cols)
            (\<lambda>column b. and_then (np_getitem2 (Array2 m) (int r) column) (\<lambda>v.
               np_setitem2 b (int r) column v)) (Array2 b) = Inr (Array2 b')
          \<and> square n b'
          \<and> (\<forall>g<n. \<forall>p<n. b' ! g ! p = (if g = r \<and> p \<in> set cols then m ! r ! p else b ! g ! p))"
  using assms(4,5)
proof (induction cols arbitrary: b)
  case Nil
  then show ?case by simp
next
  case (Cons c cols)
  have c: "c < k" and cols: "set cols \<subseteq> {..<k}" using Cons.prems(1) by simp_all
  let ?b1 = "b[r := (b ! r)[c := m ! r ! c]]"
  have rn: "r < n" and cn: "c < n" using assms(2,3) c by simp_all
  have step: "and_then (np_getitem2 (Array2 m) (int r) (int c)) (\<lambda>v.
               np_setitem2 (Array2 b) (int r) (int c) v) = Inr (Array2 ?b1)"
    by (simp add: np_getitem2_nat [OF assms(1,3) c] np_setitem2_nat [OF Cons.prems(2) rn cn]
        and_then_def)
  have sq1: "square n ?b1" by (rule square_update [OF Cons.prems(2) rn])
  from Cons.IH [OF cols sq1] obtain b' where b':
    "for_each (map int cols)
       (\<lambda>column b. and_then (np_getitem2 (Array2 m) (int r) column) (\<lambda>v.
          np_setitem2 b (int r) column v)) (Array2 ?b1) = Inr (Array2 b')"
    "square n b'"
    "\<forall>g<n. \<forall>p<n. b' ! g ! p = (if g = r \<and> p \<in> set cols then m ! r ! p else ?b1 ! g ! p)"
    by blast
  have "\<forall>g<n. \<forall>p<n. b' ! g ! p = (if g = r \<and> p \<in> set (c # cols) then m ! r ! p else b ! g ! p)"
    using b'(3) nth_update2 [OF Cons.prems(2) rn cn] by auto
  then show ?case using step b'(1,2) by simp
qed

lemma copy_rows:
  assumes "square k m" "k \<le> n" "set rows \<subseteq> {..<k}" "set cols \<subseteq> {..<k}" "square n b"
  shows "\<exists>b'. for_each (map int rows) (\<lambda>row.
            for_each (map int cols)
              (\<lambda>column b. and_then (np_getitem2 (Array2 m) row column) (\<lambda>v.
                 np_setitem2 b row column v))) (Array2 b) = Inr (Array2 b')
          \<and> square n b'
          \<and> (\<forall>g<n. \<forall>p<n. b' ! g ! p =
                (if g \<in> set rows \<and> p \<in> set cols then m ! g ! p else b ! g ! p))"
  using assms(3,5)
proof (induction rows arbitrary: b)
  case Nil
  then show ?case by simp
next
  case (Cons r rows)
  have r: "r < k" and rows: "set rows \<subseteq> {..<k}" using Cons.prems(1) by simp_all
  from copy_row [OF assms(1,2) r assms(4) Cons.prems(2)] obtain b1 where b1:
    "for_each (map int cols)
       (\<lambda>column b. and_then (np_getitem2 (Array2 m) (int r) column) (\<lambda>v.
          np_setitem2 b (int r) column v)) (Array2 b) = Inr (Array2 b1)"
    "square n b1"
    "\<forall>g<n. \<forall>p<n. b1 ! g ! p = (if g = r \<and> p \<in> set cols then m ! r ! p else b ! g ! p)"
    by blast
  from Cons.IH [OF rows b1(2)] obtain b' where b':
    "for_each (map int rows) (\<lambda>row.
       for_each (map int cols)
         (\<lambda>column b. and_then (np_getitem2 (Array2 m) row column) (\<lambda>v.
            np_setitem2 b row column v))) (Array2 b1) = Inr (Array2 b')"
    "square n b'"
    "\<forall>g<n. \<forall>p<n. b' ! g ! p = (if g \<in> set rows \<and> p \<in> set cols then m ! g ! p else b1 ! g ! p)"
    by blast
  have "\<forall>g<n. \<forall>p<n. b' ! g ! p =
      (if g \<in> set (r # rows) \<and> p \<in> set cols then m ! g ! p else b ! g ! p)"
    using b'(3) b1(3) by auto
  then show ?case using b1(1) b'(1,2) by simp
qed

lemma zero_table_nth: "g < n \<Longrightarrow> p < n \<Longrightarrow> zero_table n ! g ! p = 0"
  by (simp add: zero_table_def)

lemma resize_table:
  assumes "well_formed s" and "confusion_matrix s = Array2 m" and "num_classes s < n"
  shows "\<exists>m'. resize s n = Inr \<lparr>num_classes = n, confusion_matrix = Array2 m'\<rparr>
           \<and> square (nat n) m'
           \<and> (\<forall>g<nat n. \<forall>p<nat n. m' ! g ! p =
                 (if g < nat (num_classes s) \<and> p < nat (num_classes s) then m ! g ! p else 0))"
proof -
  let ?k = "nat (num_classes s)"
  have k: "0 \<le> num_classes s" and sq: "square ?k m"
    using assms(1,2) by (simp_all add: well_formed_def)
  have le: "?k \<le> nat n" using assms(3) by simp
  have zeros: "np_zeros (Shape2 n n) DtypeDefault = Inr (Array2 (zero_table (nat n)))"
    using assms(3) k by (intro np_zeros_square) simp
  have sub: "set [0..<?k] \<subseteq> {..<?k}" by auto
  from copy_rows [OF sq le sub sub square_zero_table] obtain m' where m':
    "for_each (py_range (num_classes s)) (\<lambda>row.
       for_each (py_range (num_classes s))
         (\<lambda>column b. and_then (np_getitem2 (Array2 m) row column) (\<lambda>v.
            np_setitem2 b row column v))) (Array2 (zero_table (nat n))) = Inr (Array2 m')"
    "square (nat n) m'"
    "\<forall>g<nat n. \<forall>p<nat n. m' ! g ! p =
       (if g \<in> set [0..<?k] \<and> p \<in> set [0..<?k] then m ! g ! p else zero_table (nat n) ! g ! p)"
    unfolding py_range_def by blast
  have "resize s n = Inr (s\<lparr>confusion_matrix := Array2 m', num_classes := n\<rparr>)"
    by (simp only: resize_def zeros assms(2) and_then_Inr m'(1))
  moreover have "s\<lparr>confusion_matrix := Array2 m', num_classes := n\<rparr>
      = \<lparr>num_classes = n, confusion_matrix = Array2 m'\<rparr>"
    by simp
  moreover have "\<forall>g<nat n. \<forall>p<nat n. m' ! g ! p =
       (if g < ?k \<and> p < ?k then m ! g ! p else 0)"
    using m'(3) by (simp add: zero_table_nth)
  ultimately show ?thesis using m'(2) by metis
qed

lemma get_count_nat:
  assumes "well_formed s" "confusion_matrix s = Array2 m"
    and "0 \<le> g" "g < num_classes s" "0 \<le> p" "p < num_classes s"
  shows "get_count s g p = Inr (m ! nat g ! nat p)"
proof -
  have sq: "square (nat (num_classes s)) m"
    using assms(1,2) by (simp add: well_formed_def)
  have "np_getitem2 (Array2 m) (int (nat g)) (int (nat p)) = Inr (m ! nat g ! nat p)"
    using assms(3-6) by (intro np_getitem2_nat [OF sq]) simp_all
  then show ?thesis using assms(2,3,5) by (simp add: get_count_def)
qed

lemma table_sum_nth:
  assumes "square n m"
  shows "sum_list (map sum_list m) = (\<Sum>g<n. \<Sum>p<n. m ! g ! p)"
proof -
  have "sum_list (map sum_list m) = (\<Sum>g = 0..<length (map sum_list m). map sum_list m ! g)"
    by (rule sum_list_sum_nth)
  also have "\<dots> = (\<Sum>g<n. sum_list (m ! g))"
    using assms by (simp add: square_def atLeast0LessThan)
  also have "\<dots> = (\<Sum>g<n. \<Sum>p<n. m ! g ! p)"
  proof (rule sum.cong)
    fix g assume "g \<in> {..<n}"
    then have "length (m ! g) = n" using assms by (simp add: square_nth)
    then show "sum_list (m ! g) = (\<Sum>p<n. m ! g ! p)"
      using sum_list_sum_nth [of "m ! g"] by (simp add: atLeast0LessThan)
  qed simp
  finally show ?thesis .
qed

lemma block_sum:
  fixes f :: "nat \<Rightarrow> nat \<Rightarrow> int"
  assumes "k \<le> n"
  shows "(\<Sum>g<n. \<Sum>p<n. if g < k \<and> p < k then f g p else 0) = (\<Sum>g<k. \<Sum>p<k. f g p)"
proof -
  have inner: "(\<Sum>p<n. if g < k \<and> p < k then f g p else 0) = (if g < k then (\<Sum>p<k. f g p) else 0)" for g
  proof (cases "g < k")
    case True
    have "(\<Sum>p<n. if p < k then f g p else 0) = (\<Sum>p<k. f g p)"
      using assms by (intro sum.mono_neutral_cong_right) auto
    then show ?thesis using True by simp
  next
    case False
    then show ?thesis by simp
  qed
  have "(\<Sum>g<n. if g < k then (\<Sum>p<k. f g p) else 0) = (\<Sum>g<k. \<Sum>p<k. f g p)"
    using assms by (intro sum.mono_neutral_cong_right) auto
  then show ?thesis by (simp only: inner)
qed

lemma resize_cells_sum:
  assumes "square k m" and "square n m'" and "k \<le> n"
    and "\<forall>g<n. \<forall>p<n. m' ! g ! p = (if g < k \<and> p < k then m ! g ! p else 0)"
  shows "cells_sum (Array2 m') = cells_sum (Array2 m)"
proof -
  have "(\<Sum>g<n. \<Sum>p<n. m' ! g ! p) = (\<Sum>g<n. \<Sum>p<n. if g < k \<and> p < k then m ! g ! p else 0)"
    using assms(4) by (intro sum.cong) simp_all
  then show ?thesis
    using table_sum_nth [OF assms(1)] table_sum_nth [OF assms(2)] block_sum [OF assms(3)]
    by simp
qed

lemma resize_counts:
  assumes "well_formed s" and "num_classes s < n"
  shows "\<exists>s'. resize s n = Inr s' \<and> well_formed s' \<and> num_classes s' = n
           \<and> cells_sum (confusion_matrix s') = cells_sum (confusion_matrix s)
           \<and> (\<forall>g p. 0 \<le> g \<and> g < n \<and> 0 \<le> p \<and> p < n \<longrightarrow>
                 get_count s' g p =
                   (if g < num_classes s \<and> p < num_classes s then get_count s g p else Inr 0))"
proof -
  obtain m where m: "confusion_matrix s = Array2 m"
    using assms(1) by (cases "confusion_matrix s") (simp_all add: well_formed_def)
  from resize_table [OF assms(1) m assms(2)] obtain m' where m':
    "resize s n = Inr \<lparr>num_classes = n, confusion_matrix = Array2 m'\<rparr>"
    "square (nat n) m'"
    "\<forall>g<nat n. \<forall>p<nat n. m' ! g ! p =
        (if g < nat (num_classes s) \<and> p < nat (num_classes s) then m ! g ! p else 0)"
    by blast
  let ?s' = "\<lparr>num_classes = n, confusion_matrix = Array2 m'\<rparr>"
  have k: "0 \<le> num_classes s" using assms(1) by (simp add: well_formed_def)
  have wf': "well_formed ?s'"
    using m'(2) assms(2) k by (simp add: well_formed_def)
  have "get_count ?s' g p =
      (if g < num_classes s \<and> p < num_classes s then get_count s g p else Inr 0)"
    if gp: "0 \<le> g \<and> g < n \<and> 0 \<le> p \<and> p < n" for g p
  proof -
    have new: "get_count ?s' g p = Inr (m' ! nat g ! nat p)"
      using gp by (intro get_count_nat [OF wf']) simp_all
    have cell: "m' ! nat g ! nat p =
        (if nat g < nat (num_classes s) \<and> nat p < nat (num_classes s) then m ! nat g ! nat p else 0)"
      using m'(3) gp by simp
    show ?thesis
    proof (cases "g < num_classes s \<and> p < num_classes s")
      case True
      then have "get_count s g p = Inr (m ! nat g ! nat p)"
        using gp by (intro get_count_nat [OF assms(1) m]) simp_all
      then show ?thesis using new cell True gp by simp
    next
      case False
      then show ?thesis using new cell gp by auto
    qed
  qed
  moreover have "cells_sum (confusion_matrix ?s') = cells_sum (confusion_matrix s)"
  proof -
    have "square (nat (num_classes s)) m"
      using assms(1) m by (simp add: well_formed_def)
    moreover have "nat (num_classes s) \<le> nat n" using assms(2) by simp
    ultimately have "cells_sum (Array2 m') = cells_sum (Array2 m)"
      using m'(2,3) by (intro resize_cells_sum)
    then show ?thesis using m by simp
  qed
  ultimately show ?thesis using m'(1) wf' by auto
qed

text \<open>
  Claim C6: when the table of a well-formed accumulator is expanded from \<open>num_classes\<close> to
  a larger size \<open>n\<close> (lines 87 to 92, run during the bulk load when a label exceeds
  \<open>num_classes\<close>), the expansion succeeds, \<open>num_classes\<close> becomes \<open>n\<close>, the table is
  \<open>n\<close> by \<open>n\<close>, every cell \<open>(g, p)\<close> with \<open>g, p < num_classes\<close> reads its count from
  before, and every other cell reads 0.
\<close>

theorem resize_keeps_counts:
  assumes "well_formed s" and "num_classes s < n"
  shows "\<exists>s'. resize s n = Inr s' \<and> well_formed s' \<and> num_classes s' = n
           \<and> (\<forall>g p. 0 \<le> g \<and> g < n \<and> 0 \<le> p \<and> p < n \<longrightarrow>
                 get_count s' g p =
                   (if g < num_classes s \<and> p < num_classes s then get_count s g p else Inr 0))"
  using resize_counts [OF assms] by blast

theorem resize_keeps_counts_witness:
  "well_formed \<lparr>num_classes = 2, confusion_matrix = Array2 [[1, 2], [3, 4]]\<rparr>
   \<and> (\<exists>s'. resize \<lparr>num_classes = 2, confusion_matrix = Array2 [[1, 2], [3, 4]]\<rparr> 3 = Inr s'
         \<and> well_formed s' \<and> num_classes s' = 3
         \<and> get_count s' 1 0 = Inr 3 \<and> get_count s' 1 2 = Inr 0 \<and> get_count s' 2 2 = Inr 0)"
proof -
  let ?s = "\<lparr>num_classes = 2, confusion_matrix = Array2 [[1, 2], [3, 4]]\<rparr>"
  have wf: "well_formed ?s"
    by (simp add: well_formed_def square_def)
  have old: "get_count ?s 1 0 = Inr 3"
    by (simp add: get_count_def np_getitem2.simps np_index_def)
  from resize_keeps_counts [OF wf, of 3] obtain s' where s':
    "resize ?s 3 = Inr s'" "well_formed s'" "num_classes s' = 3"
    "\<forall>g p. 0 \<le> g \<and> g < 3 \<and> 0 \<le> p \<and> p < 3 \<longrightarrow>
       get_count s' g p = (if g < 2 \<and> p < 2 then get_count ?s g p else Inr 0)"
    by auto
  have "get_count s' 1 0 = Inr 3" "get_count s' 1 2 = Inr 0" "get_count s' 2 2 = Inr 0"
    using s'(4) [rule_format, of 1 0] s'(4) [rule_format, of 1 2] s'(4) [rule_format, of 2 2] old
    by simp_all
  then show ?thesis using wf s'(1-3) by blast
qed

section \<open>Intersection over union, class by class\<close>

lemma comprehension_map:
  "(\<And>x. x \<in> set xs \<Longrightarrow> f x = Inr (g x)) \<Longrightarrow> comprehension f xs = Inr (map g xs)"
  by (induction xs) simp_all

lemma for_each_accumulate:
  fixes errs :: "int list"
  assumes "\<And>b errs. b \<in> set bs \<Longrightarrow> body (int b) errs = Inr (if b \<noteq> a then errs[a := errs ! a + f b] else errs)"
    and "a < length errs"
  shows "for_each (map int bs) body errs =
           Inr (errs[a := errs ! a + sum_list (map f (filter (\<lambda>b. b \<noteq> a) bs))])"
  using assms
proof (induction bs arbitrary: errs)
  case Nil
  then show ?case by simp
next
  case (Cons b bs)
  have step: "body (int b) errs = Inr (if b \<noteq> a then errs[a := errs ! a + f b] else errs)"
    using Cons.prems(1) by simp
  have rest: "\<And>b' errs. b' \<in> set bs \<Longrightarrow>
      body (int b') errs = Inr (if b' \<noteq> a then errs[a := errs ! a + f b'] else errs)"
    using Cons.prems(1) by simp
  show ?case
  proof (cases "b = a")
    case True
    then show ?thesis using step Cons.IH [OF rest Cons.prems(2)] by simp
  next
    case False
    have len: "a < length (errs[a := errs ! a + f b])" using Cons.prems(2) by simp
    show ?thesis
      using False step Cons.IH [OF rest len] Cons.prems(2) by (simp add: add.assoc)
  qed
qed

lemma for_each_rows:
  fixes errs :: "int list"
  assumes "\<And>a errs. a \<in> set as \<Longrightarrow> length errs = k \<Longrightarrow>
             body (int a) errs = Inr (errs[a := errs ! a + S a])"
    and "distinct as" and "set as \<subseteq> {..<k}" and "length errs = k"
  shows "for_each (map int as) body errs =
           Inr (map (\<lambda>i. if i \<in> set as then errs ! i + S i else errs ! i) [0..<k])"
  using assms
proof (induction as arbitrary: errs)
  case Nil
  then show ?case using map_nth [of errs] by simp
next
  case (Cons a as)
  let ?e1 = "errs[a := errs ! a + S a]"
  have a: "a < k" "a \<notin> set as" using Cons.prems(2,3) by simp_all
  have step: "body (int a) errs = Inr ?e1" using Cons.prems(1,4) by simp
  have len: "length ?e1 = k" using Cons.prems(4) by simp
  have "for_each (map int as) body ?e1 =
      Inr (map (\<lambda>i. if i \<in> set as then ?e1 ! i + S i else ?e1 ! i) [0..<k])"
    using Cons.prems by (intro Cons.IH [OF _ _ _ len]) simp_all
  moreover have "map (\<lambda>i. if i \<in> set as then ?e1 ! i + S i else ?e1 ! i) [0..<k]
      = map (\<lambda>i. if i \<in> set (a # as) then errs ! i + S i else errs ! i) [0..<k]"
    using a Cons.prems(4) by (auto simp: nth_list_update)
  ultimately show ?case using step by simp
qed

lemma sum_list_filter_upt:
  fixes f :: "nat \<Rightarrow> int"
  shows "sum_list (map f (filter (\<lambda>b. b \<noteq> a) [0..<k])) = sum f ({..<k} - {a})"
proof -
  have "sum f (set (filter (\<lambda>b. b \<noteq> a) [0..<k])) = sum_list (map f (filter (\<lambda>b. b \<noteq> a) [0..<k]))"
    by (rule sum.distinct_set_conv_list) simp
  moreover have "set (filter (\<lambda>b. b \<noteq> a) [0..<k]) = {..<k} - {a}" by auto
  ultimately show ?thesis by simp
qed

lemma errors_by_row_eq:
  assumes "square k m"
  shows "errors_by_row (Array2 m) (int k) = Inr (map (\<lambda>r. sum (\<lambda>p. m ! r ! p) ({..<k} - {r})) [0..<k])"
proof -
  have inner: "for_each (py_range (int k)) (\<lambda>column errs.
         if int a \<noteq> column
         then and_then (np_getitem2 (Array2 m) (int a) column) (\<lambda>v.
                Inr (errs[nat (int a) := errs ! nat (int a) + v]))
         else Inr errs) errs
       = Inr (errs[a := errs ! a + sum (\<lambda>p. m ! a ! p) ({..<k} - {a})])"
    if "a \<in> set [0..<k]" "length errs = k" for a and errs :: "int list"
  proof -
    have a: "a < k" using that(1) by simp
    have "for_each (map int [0..<k]) (\<lambda>column errs.
         if int a \<noteq> column
         then and_then (np_getitem2 (Array2 m) (int a) column) (\<lambda>v.
                Inr (errs[nat (int a) := errs ! nat (int a) + v]))
         else Inr errs) errs
       = Inr (errs[a := errs ! a + sum_list (map (\<lambda>p. m ! a ! p) (filter (\<lambda>b. b \<noteq> a) [0..<k]))])"
      using a that(2) by (intro for_each_accumulate) (auto simp: np_getitem2_nat [OF assms])
    then show ?thesis by (simp add: py_range_def sum_list_filter_upt)
  qed
  have "for_each (map int [0..<k]) (\<lambda>row.
       for_each (py_range (int k)) (\<lambda>column errs.
         if row \<noteq> column
         then and_then (np_getitem2 (Array2 m) row column) (\<lambda>v.
                Inr (errs[nat row := errs ! nat row + v]))
         else Inr errs)) (replicate k 0)
     = Inr (map (\<lambda>i. if i \<in> set [0..<k] then replicate k 0 ! i + sum (\<lambda>p. m ! i ! p) ({..<k} - {i})
                      else replicate k 0 ! i) [0..<k])"
    by (rule for_each_rows) (auto simp: inner)
  then show ?thesis by (simp add: errors_by_row_def py_range_def cong: map_cong)
qed

lemma errors_by_column_eq:
  assumes "square k m"
  shows "errors_by_column (Array2 m) (int k) = Inr (map (\<lambda>c. sum (\<lambda>g. m ! g ! c) ({..<k} - {c})) [0..<k])"
proof -
  have inner: "for_each (py_range (int k)) (\<lambda>row errs.
         if row \<noteq> int a
         then and_then (np_getitem2 (Array2 m) row (int a)) (\<lambda>v.
                Inr (errs[nat (int a) := errs ! nat (int a) + v]))
         else Inr errs) errs
       = Inr (errs[a := errs ! a + sum (\<lambda>g. m ! g ! a) ({..<k} - {a})])"
    if "a \<in> set [0..<k]" "length errs = k" for a and errs :: "int list"
  proof -
    have a: "a < k" using that(1) by simp
    have "for_each (map int [0..<k]) (\<lambda>row errs.
         if row \<noteq> int a
         then and_then (np_getitem2 (Array2 m) row (int a)) (\<lambda>v.
                Inr (errs[nat (int a) := errs ! nat (int a) + v]))
         else Inr errs) errs
       = Inr (errs[a := errs ! a + sum_list (map (\<lambda>g. m ! g ! a) (filter (\<lambda>b. b \<noteq> a) [0..<k]))])"
      using a that(2) by (intro for_each_accumulate) (auto simp: np_getitem2_nat [OF assms])
    then show ?thesis by (simp add: py_range_def sum_list_filter_upt)
  qed
  have "for_each (map int [0..<k]) (\<lambda>column.
       for_each (py_range (int k)) (\<lambda>row errs.
         if row \<noteq> column
         then and_then (np_getitem2 (Array2 m) row column) (\<lambda>v.
                Inr (errs[nat column := errs ! nat column + v]))
         else Inr errs)) (replicate k 0)
     = Inr (map (\<lambda>i. if i \<in> set [0..<k] then replicate k 0 ! i + sum (\<lambda>g. m ! g ! i) ({..<k} - {i})
                      else replicate k 0 ! i) [0..<k])"
    by (rule for_each_rows) (auto simp: inner)
  then show ?thesis by (simp add: errors_by_column_def py_range_def cong: map_cong)
qed

lemma fold_list_update:
  "set is \<subseteq> {..<length xs} \<Longrightarrow>
   fold (\<lambda>i xs. xs[i := h i]) is xs = map (\<lambda>j. if j \<in> set is then h j else xs ! j) [0..<length xs]"
proof (induction "is" arbitrary: xs)
  case Nil
  then show ?case using map_nth [of xs] by simp
next
  case (Cons i "is")
  have "fold (\<lambda>i xs. xs[i := h i]) is (xs[i := h i])
      = map (\<lambda>j. if j \<in> set is then h j else xs[i := h i] ! j) [0..<length (xs[i := h i])]"
    using Cons.prems by (intro Cons.IH) simp
  then show ?case using Cons.prems by (auto simp: nth_list_update)
qed

lemma divisors_eq:
  assumes "length d = k"
  shows "divisors d r c (int k) =
           map (\<lambda>i. if d ! i = 0 then 1 else d ! i + r ! i + c ! i) [0..<k]"
proof -
  have body: "(\<lambda>i divisor.
        let divisor = divisor[nat i := d ! nat i + r ! nat i + c ! nat i]
        in if d ! nat i = 0 then divisor[nat i := 1] else divisor) \<circ> int
     = (\<lambda>i xs. xs[i := (if d ! i = 0 then 1 else d ! i + r ! i + c ! i)])"
    by (auto simp: fun_eq_iff Let_def)
  have "divisors d r c (int k) =
      fold (\<lambda>i xs. xs[i := (if d ! i = 0 then 1 else d ! i + r ! i + c ! i)]) [0..<k] (replicate k 0)"
    by (simp add: divisors_def py_range_def fold_map body)
  also have "\<dots> = map (\<lambda>j. if j \<in> set [0..<k] then (if d ! j = 0 then 1 else d ! j + r ! j + c ! j)
                            else replicate k 0 ! j) [0..<length (replicate k (0::int))]"
    by (rule fold_list_update) auto
  also have "\<dots> = map (\<lambda>i. if d ! i = 0 then 1 else d ! i + r ! i + c ! i) [0..<k]"
    by (simp cong: map_cong)
  finally show ?thesis .
qed

lemma per_class_iou_int:
  assumes "square k m" and "num_classes s = int k" and "confusion_matrix s = Array2 m"
  shows "get_intersection_union_per_class s =
     Inr (map (\<lambda>c. true_div (m ! c ! c)
                 (if m ! c ! c = 0 then 1
                  else m ! c ! c + sum (\<lambda>p. m ! c ! p) ({..<k} - {c})
                                 + sum (\<lambda>g. m ! g ! c) ({..<k} - {c})))
            [0..<k])"
proof -
  note sq = assms(1)
  have diag: "comprehension (\<lambda>i. np_getitem2 (Array2 m) i i) (py_range (int k))
      = Inr (map (\<lambda>i. m ! nat i ! nat i) (py_range (int k)))"
    by (rule comprehension_map) (auto simp: py_range_def np_getitem2_nat [OF sq])
  have diag': "map (\<lambda>i. m ! nat i ! nat i) (py_range (int k)) = map (\<lambda>i. m ! i ! i) [0..<k]"
    by (simp add: py_range_def)
  have "get_intersection_union_per_class s =
     Inr (map (\<lambda>i. true_div (map (\<lambda>i. m ! i ! i) [0..<k] ! nat i)
                 (divisors (map (\<lambda>i. m ! i ! i) [0..<k])
                    (map (\<lambda>r. sum (\<lambda>p. m ! r ! p) ({..<k} - {r})) [0..<k])
                    (map (\<lambda>c. sum (\<lambda>g. m ! g ! c) ({..<k} - {c})) [0..<k]) (int k) ! nat i))
            (py_range (int k)))"
    unfolding get_intersection_union_per_class_def Let_def assms(2,3)
    by (simp only: diag diag' errors_by_row_eq [OF sq] errors_by_column_eq [OF sq] and_then_Inr)
  also have "\<dots> = Inr (map (\<lambda>c. true_div (m ! c ! c)
                 (if m ! c ! c = 0 then 1
                  else m ! c ! c + sum (\<lambda>p. m ! c ! p) ({..<k} - {c})
                                 + sum (\<lambda>g. m ! g ! c) ({..<k} - {c})))
            [0..<k])"
    by (simp add: divisors_eq py_range_def)
  finally show ?thesis .
qed

lemma per_class_iou_eq:
  assumes "well_formed s" and "confusion_matrix s = Array2 m"
  shows "get_intersection_union_per_class s =
     Inr (map (\<lambda>c. true_div (m ! c ! c)
                 (if m ! c ! c = 0 then 1
                  else m ! c ! c + sum (\<lambda>p. m ! c ! p) ({..<nat (num_classes s)} - {c})
                                 + sum (\<lambda>g. m ! g ! c) ({..<nat (num_classes s)} - {c})))
            [0..<nat (num_classes s)])"
proof -
  have "num_classes s = int (nat (num_classes s))" and "square (nat (num_classes s)) m"
    using assms by (simp_all add: well_formed_def)
  then show ?thesis using assms(2) by (intro per_class_iou_int)
qed

lemma true_div_positive:
  "0 < b \<Longrightarrow> true_div a b = Finite (of_int a / of_int b)"
  by (simp add: true_div_def)

text \<open>
  Claim C5: on every well-formed accumulator \<open>get_intersection_union_per_class\<close>
  returns a list of length \<open>num_classes\<close>. For each class \<open>c\<close>, with \<open>diag\<close> the cell
  \<open>(c, c)\<close>, \<open>rowErr\<close> the sum of the other cells of row \<open>c\<close> and \<open>colErr\<close> the sum of
  the other cells of column \<open>c\<close>, the entry at \<open>c\<close> is the quotient of \<open>diag\<close> by
  \<open>diag + rowErr + colErr\<close>, the divisor being replaced by 1 when \<open>diag = 0\<close>, so that the
  entry is then 0. Where no cell is negative the divisor is positive and the quotient is
  the finite number \<open>diag / divisor\<close>.
\<close>

theorem per_class_iou:
  assumes "well_formed s" and "confusion_matrix s = Array2 m"
  shows "\<exists>r. get_intersection_union_per_class s = Inr r
           \<and> int (length r) = num_classes s
           \<and> (\<forall>c < nat (num_classes s).
                 r ! c = true_div (m ! c ! c)
                           (if m ! c ! c = 0 then 1
                            else m ! c ! c + (\<Sum>p \<in> {..<nat (num_classes s)} - {c}. m ! c ! p)
                                           + (\<Sum>g \<in> {..<nat (num_classes s)} - {c}. m ! g ! c))
                 \<and> (m ! c ! c = 0 \<longrightarrow> r ! c = Finite 0)
                 \<and> ((\<forall>g < nat (num_classes s). \<forall>p < nat (num_classes s). 0 \<le> m ! g ! p) \<longrightarrow>
                      r ! c = Finite (of_int (m ! c ! c) /
                        of_int (if m ! c ! c = 0 then 1
                                else m ! c ! c + (\<Sum>p \<in> {..<nat (num_classes s)} - {c}. m ! c ! p)
                                               + (\<Sum>g \<in> {..<nat (num_classes s)} - {c}. m ! g ! c)))))"
proof -
  let ?k = "nat (num_classes s)"
  let ?den = "\<lambda>c. if m ! c ! c = 0 then 1
                  else m ! c ! c + (\<Sum>p \<in> {..<?k} - {c}. m ! c ! p) + (\<Sum>g \<in> {..<?k} - {c}. m ! g ! c)"
  let ?r = "map (\<lambda>c. true_div (m ! c ! c) (?den c)) [0..<?k]"
  have res: "get_intersection_union_per_class s = Inr ?r"
    by (rule per_class_iou_eq [OF assms])
  have len: "int (length ?r) = num_classes s"
    using assms(1) by (simp add: well_formed_def)
  have entry: "?r ! c = true_div (m ! c ! c) (?den c)" if "c < ?k" for c
    using that by simp
  have zero: "?r ! c = Finite 0" if "c < ?k" "m ! c ! c = 0" for c
    using that by (simp add: true_div_def)
  have fin: "?r ! c = Finite (of_int (m ! c ! c) / of_int (?den c))"
    if c: "c < ?k" and nonneg: "\<forall>g < ?k. \<forall>p < ?k. 0 \<le> m ! g ! p" for c
  proof -
    have row: "0 \<le> (\<Sum>p \<in> {..<?k} - {c}. m ! c ! p)"
      using c nonneg by (intro sum_nonneg) simp
    have col: "0 \<le> (\<Sum>g \<in> {..<?k} - {c}. m ! g ! c)"
      using c nonneg by (intro sum_nonneg) simp
    have "0 \<le> m ! c ! c" using c nonneg by simp
    then have "0 < ?den c" using row col by auto
    then show ?thesis using entry [OF c] by (simp only: true_div_positive)
  qed
  have "\<forall>c < ?k. ?r ! c = true_div (m ! c ! c) (?den c)
           \<and> (m ! c ! c = 0 \<longrightarrow> ?r ! c = Finite 0)
           \<and> ((\<forall>g < ?k. \<forall>p < ?k. 0 \<le> m ! g ! p) \<longrightarrow>
                  ?r ! c = Finite (of_int (m ! c ! c) / of_int (?den c)))"
    using entry zero fin by blast
  with res len show ?thesis by blast
qed

theorem per_class_iou_witness:
  "well_formed \<lparr>num_classes = 3, confusion_matrix = Array2 [[1, 1, 0], [0, 1, 0], [1, 0, 1]]\<rparr>
   \<and> (\<exists>r. get_intersection_union_per_class
             \<lparr>num_classes = 3, confusion_matrix = Array2 [[1, 1, 0], [0, 1, 0], [1, 0, 1]]\<rparr> = Inr r
         \<and> length r = 3
         \<and> r ! 0 = Finite (1 / 3) \<and> r ! 1 = Finite (1 / 2) \<and> r ! 2 = Finite (1 / 2))"
proof -
  let ?m = "[[1, 1, 0], [0, 1, 0], [1, 0, 1 :: int]]"
  let ?s = "\<lparr>num_classes = 3, confusion_matrix = Array2 ?m\<rparr>"
  have wf: "well_formed ?s"
    by (simp add: well_formed_def square_def)
  have cm: "confusion_matrix ?s = Array2 ?m" by simp
  have d0: "{..<3::nat} - {0} = {1, 2}" and d1: "{..<3::nat} - {Suc 0} = {0, 2}"
    and d2: "{..<3::nat} - {2} = {0, 1}" by auto
  from per_class_iou [OF wf cm] obtain r where r:
    "get_intersection_union_per_class ?s = Inr r" "int (length r) = 3"
    "\<forall>c < 3. r ! c = true_div (?m ! c ! c)
        (if ?m ! c ! c = 0 then 1
         else ?m ! c ! c + (\<Sum>p \<in> {..<3} - {c}. ?m ! c ! p) + (\<Sum>g \<in> {..<3} - {c}. ?m ! g ! c))"
    by auto
  have "r ! 0 = Finite (1 / 3)"
    using r(3) [rule_format, of 0] by (simp add: d0 true_div_def)
  moreover have "r ! 1 = Finite (1 / 2)"
    using r(3) [rule_format, of 1] by (simp add: d1 true_div_def)
  moreover have "r ! 2 = Finite (1 / 2)"
    using r(3) [rule_format, of 2] by (simp add: d2 true_div_def)
  ultimately show ?thesis using wf r(1,2) by auto
qed

section \<open>The bulk load, line by line\<close>

lemma resize_num_classes: "resize s n = Inr s' \<Longrightarrow> num_classes s' = n"
  by (auto simp: resize_def and_then_def split: sum.splits)

lemma process_pair_invalid:
  "c < 1 \<or> 10000 < c \<Longrightarrow> process_pair s (Some g, Some c) = Return (- 1) s"
  by (auto simp: process_pair_def Let_def)

lemma process_pair_valid:
  assumes "1 \<le> c" "c \<le> 10000"
  shows "process_pair s (Some g, Some c) =
     (case (if max g c > num_classes s then resize s (max g c) else Inr s) of
        Inl e \<Rightarrow> Raise e s
      | Inr s1 \<Rightarrow>
          if g = 0 then Continue s1
          else (case np_iadd2 (confusion_matrix s1) (g - 1) (c - 1) 1 of
                  Inl e \<Rightarrow> Raise e s1
                | Inr a \<Rightarrow> Return 0 (s1\<lparr>confusion_matrix := a\<rparr>)))"
proof -
  have clamp: "max (min c 10000) 1 = c" using assms by auto
  show ?thesis
    by (simp only: process_pair_def Let_def fst_conv snd_conv option.case clamp) simp
qed

lemma process_pair_parse_error:
  "a = None \<or> b = None \<Longrightarrow> process_pair s (a, b) = Raise ValueError s"
  by (auto simp: process_pair_def split: option.splits)

lemma process_pair_skip:
  assumes "1 \<le> c" "c \<le> 10000"
  shows "process_pair s (Some 0, Some c) =
     (if num_classes s < c
      then (case resize s c of Inl e \<Rightarrow> Raise e s | Inr s1 \<Rightarrow> Continue s1)
      else Continue s)"
proof -
  have "max 0 c = c" using assms by simp
  then show ?thesis
    by (simp add: process_pair_valid [OF assms] split: sum.splits)
qed

lemma process_pair_cases:
  fixes pair :: "int option \<times> int option"
  obtains (parse_error) "fst pair = None \<or> snd pair = None"
  | (invalid) g c where "pair = (Some g, Some c)" "c < 1 \<or> 10000 < c"
  | (valid) g c where "pair = (Some g, Some c)" "1 \<le> c" "c \<le> 10000"
proof (cases pair)
  case (Pair a b)
  show ?thesis
  proof (cases a)
    case None
    then show ?thesis using Pair parse_error by simp
  next
    case (Some g)
    note g = this
    show ?thesis
    proof (cases b)
      case None
      then show ?thesis using Pair parse_error by simp
    next
      case (Some c)
      then show ?thesis using Pair g invalid [of g c] valid [of g c] by (cases "1 \<le> c \<and> c \<le> 10000") auto
    qed
  qed
qed

lemma process_pair_Continue:
  assumes "process_pair s pair = Continue s'"
  shows "\<exists>c. pair = (Some 0, Some c) \<and> 1 \<le> c \<and> c \<le> 10000
           \<and> num_classes s' = max (num_classes s) c"
proof (cases pair rule: process_pair_cases)
  case parse_error
  then have "process_pair s pair = Raise ValueError s"
    using process_pair_parse_error [of "fst pair" "snd pair" s] by simp
  then show ?thesis using assms by simp
next
  case (invalid g c)
  then show ?thesis using assms process_pair_invalid [of c s g] by simp
next
  case (valid g c)
  have g0: "g = 0"
    using assms unfolding valid(1) process_pair_valid [OF valid(2,3)]
    by (auto split: sum.splits if_splits)
  have "num_classes s' = max (num_classes s) c"
    using assms valid(2) unfolding valid(1) g0 process_pair_skip [OF valid(2,3)]
    by (auto split: sum.splits if_splits dest: resize_num_classes)
  then show ?thesis using valid g0 by simp
qed

lemma process_pair_Return_failure:
  assumes "process_pair s pair = Return (- 1) s'"
  shows "s' = s \<and> (\<exists>g c. pair = (Some g, Some c) \<and> (c < 1 \<or> 10000 < c))"
proof (cases pair rule: process_pair_cases)
  case parse_error
  then have "process_pair s pair = Raise ValueError s"
    using process_pair_parse_error [of "fst pair" "snd pair" s] by simp
  then show ?thesis using assms by simp
next
  case (invalid g c)
  then show ?thesis using assms process_pair_invalid [of c s g] by simp
next
  case (valid g c)
  have False
    using assms unfolding valid(1) process_pair_valid [OF valid(2,3)]
    by (auto split: sum.splits if_splits)
  then show ?thesis ..
qed

lemma load_loop_append:
  "load_loop s xs = (ReturnedNone, s1) \<Longrightarrow> load_loop s (xs @ ys) = load_loop s1 ys"
proof (induction xs arbitrary: s)
  case Nil
  then show ?case by simp
next
  case (Cons x xs)
  then show ?case by (cases "process_pair s x") simp_all
qed

lemma load_loop_failure:
  assumes "load_loop s lines = (Returned (- 1), s')"
  shows "\<exists>i<length lines.
           (\<exists>g c. lines ! i = (Some g, Some c) \<and> (c < 1 \<or> 10000 < c))
         \<and> (\<forall>j<i. \<exists>c. lines ! j = (Some 0, Some c) \<and> 1 \<le> c \<and> c \<le> 10000 \<and> c \<le> num_classes s')
         \<and> num_classes s \<le> num_classes s'
         \<and> (num_classes s' = num_classes s \<or> (\<exists>j<i. snd (lines ! j) = Some (num_classes s')))
         \<and> (i = 0 \<longrightarrow> s' = s)"
  using assms
proof (induction lines arbitrary: s)
  case Nil
  then show ?case by simp
next
  case (Cons pair rest)
  show ?case
  proof (cases "process_pair s pair")
    case (Continue s1)
    from process_pair_Continue [OF Continue] obtain c0 where c0:
      "pair = (Some 0, Some c0)" "1 \<le> c0" "c0 \<le> 10000" "num_classes s1 = max (num_classes s) c0"
      by blast
    have "load_loop s1 rest = (Returned (- 1), s')"
      using Cons.prems Continue by simp
    from Cons.IH [OF this] obtain i where i: "i < length rest"
      "\<exists>g c. rest ! i = (Some g, Some c) \<and> (c < 1 \<or> 10000 < c)"
      "\<forall>j<i. \<exists>c. rest ! j = (Some 0, Some c) \<and> 1 \<le> c \<and> c \<le> 10000 \<and> c \<le> num_classes s'"
      "num_classes s1 \<le> num_classes s'"
      "num_classes s' = num_classes s1 \<or> (\<exists>j<i. snd (rest ! j) = Some (num_classes s'))"
      by blast
    have a: "\<exists>g c. (pair # rest) ! Suc i = (Some g, Some c) \<and> (c < 1 \<or> 10000 < c)"
      using i(2) by simp
    have b: "\<exists>c. (pair # rest) ! j = (Some 0, Some c) \<and> 1 \<le> c \<and> c \<le> 10000 \<and> c \<le> num_classes s'"
      if "j < Suc i" for j
    proof (cases j)
      case 0
      then show ?thesis using c0 i(4) by simp
    next
      case (Suc j')
      then show ?thesis using that i(3) by simp
    qed
    have c: "num_classes s \<le> num_classes s'" using c0(4) i(4) by simp
    have d: "num_classes s' = num_classes s \<or> (\<exists>j<Suc i. snd ((pair # rest) ! j) = Some (num_classes s'))"
    proof (cases "num_classes s' = num_classes s1")
      case True
      show ?thesis
      proof (cases "num_classes s1 = num_classes s")
        case True
        then show ?thesis using \<open>num_classes s' = num_classes s1\<close> by simp
      next
        case False
        then have "num_classes s1 = c0" using c0(4) by (simp add: max_def split: if_splits)
        then have "snd ((pair # rest) ! 0) = Some (num_classes s')"
          using c0(1) True by simp
        then show ?thesis by blast
      qed
    next
      case False
      then obtain j where "j < i" "snd (rest ! j) = Some (num_classes s')"
        using i(5) by blast
      then have "Suc j < Suc i" "snd ((pair # rest) ! Suc j) = Some (num_classes s')"
        by simp_all
      then show ?thesis by blast
    qed
    have "Suc i < length (pair # rest)" using i(1) by simp
    then show ?thesis using a b c d by (intro exI [of _ "Suc i"]) simp
  next
    case (Return r s1)
    then have r: "r = - 1" "s1 = s'" using Cons.prems by simp_all
    from process_pair_Return_failure [of s pair s'] Return r
    have "s' = s" "\<exists>g c. pair = (Some g, Some c) \<and> (c < 1 \<or> 10000 < c)"
      by simp_all
    then show ?thesis by (intro exI [of _ 0]) simp
  next
    case (Raise e s1)
    then show ?thesis using Cons.prems by simp
  qed
qed

lemma skipped_lines_reach:
  assumes "well_formed s"
    and "\<forall>pair \<in> set skipped. \<exists>c. pair = (Some 0, Some c) \<and> 1 \<le> c \<and> c \<le> 10000"
  shows "\<exists>s1. load_loop s skipped = (ReturnedNone, s1) \<and> well_formed s1"
  using assms
proof (induction skipped arbitrary: s)
  case Nil
  then show ?case by simp
next
  case (Cons pair rest)
  from Cons.prems(2) obtain c where c: "pair = (Some 0, Some c)" "1 \<le> c" "c \<le> 10000"
    by auto
  have "\<exists>s1. process_pair s pair = Continue s1 \<and> well_formed s1"
  proof (cases "num_classes s < c")
    case True
    obtain m where m: "confusion_matrix s = Array2 m"
      using Cons.prems(1) by (cases "confusion_matrix s") (simp_all add: well_formed_def)
    from resize_table [OF Cons.prems(1) m True] obtain m' where m':
      "resize s c = Inr \<lparr>num_classes = c, confusion_matrix = Array2 m'\<rparr>" "square (nat c) m'"
      by blast
    have "well_formed \<lparr>num_classes = c, confusion_matrix = Array2 m'\<rparr>"
      using m'(2) c(2) by (simp add: well_formed_def)
    then show ?thesis
      using True m'(1) unfolding c(1) process_pair_skip [OF c(2,3)] by simp
  next
    case False
    then show ?thesis
      using Cons.prems(1) unfolding c(1) process_pair_skip [OF c(2,3)] by simp
  qed
  then obtain s1 where s1: "process_pair s pair = Continue s1" "well_formed s1" by blast
  from Cons.IH [OF s1(2)] Cons.prems(2) obtain s2 where
    "load_loop s1 rest = (ReturnedNone, s2)" "well_formed s2" by auto
  then show ?case using s1(1) by simp
qed

lemma zip_split:
  assumes "i < length xs" "i < length ys"
  shows "zip xs ys = zip (take i xs) (take i ys) @ (xs ! i, ys ! i) # zip (drop (Suc i) xs) (drop (Suc i) ys)"
proof -
  have "i < length (zip xs ys)" using assms by simp
  then have "zip xs ys = take i (zip xs ys) @ zip xs ys ! i # drop (Suc i) (zip xs ys)"
    by (rule id_take_nth_drop)
  then show ?thesis using assms by (simp add: take_zip drop_zip)
qed

lemma load_stops_at_invalid_label:
  assumes "i < length ground_truth_file" and "i < length classified_file"
    and "ground_truth_file ! i = Some label_gt" and "classified_file ! i = Some label_cl"
    and "label_cl < 1 \<or> 10000 < label_cl"
    and "load_loop s (zip (take i ground_truth_file) (take i classified_file)) = (ReturnedNone, s_i)"
  shows "load_loop s (zip ground_truth_file classified_file) = (Returned (- 1), s_i)"
proof -
  let ?rest = "zip (drop (Suc i) ground_truth_file) (drop (Suc i) classified_file)"
  have split: "zip ground_truth_file classified_file =
      zip (take i ground_truth_file) (take i classified_file) @ (Some label_gt, Some label_cl) # ?rest"
    using zip_split [OF assms(1,2)] assms(3,4) by simp
  have "load_loop s_i ((Some label_gt, Some label_cl) # ?rest) = (Returned (- 1), s_i)"
    using process_pair_invalid [OF assms(5), of s_i label_gt] by simp
  then show ?thesis
    unfolding split by (simp only: load_loop_append [OF assms(6)])
qed

lemma invalid_label_after_skipped_lines:
  assumes "well_formed s"
    and "i < length ground_truth_file" and "i < length classified_file"
    and "\<forall>j<i. ground_truth_file ! j = Some 0
           \<and> (\<exists>c. classified_file ! j = Some c \<and> 1 \<le> c \<and> c \<le> 10000)"
    and "ground_truth_file ! i = Some label_gt" and "classified_file ! i = Some label_cl"
    and "label_cl < 1 \<or> 10000 < label_cl"
  shows "fst (build_conf_matrix_from_file s ground_truth_file classified_file) = Returned (- 1)"
proof -
  let ?before = "zip (take i ground_truth_file) (take i classified_file)"
  have "\<exists>c. pair = (Some 0, Some c) \<and> 1 \<le> c \<and> c \<le> 10000" if "pair \<in> set ?before" for pair
  proof -
    from that obtain j where j: "j < length ?before" "pair = ?before ! j"
      by (auto simp: in_set_conv_nth)
    then have "j < i" by simp
    then have "pair = (ground_truth_file ! j, classified_file ! j)"
      using j assms(2,3) by simp
    then show ?thesis using assms(4) \<open>j < i\<close> by auto
  qed
  then have "\<forall>pair \<in> set ?before. \<exists>c. pair = (Some 0, Some c) \<and> 1 \<le> c \<and> c \<le> 10000"
    by blast
  from skipped_lines_reach [OF assms(1) this] obtain s_i where
    "load_loop s ?before = (ReturnedNone, s_i)" by blast
  from load_stops_at_invalid_label [OF assms(2,3,5,6,7) this] show ?thesis
    by (simp add: build_conf_matrix_from_file_def)
qed

text \<open>
  Claim C2 (the code departs from it): the load should process every pair of lines up to
  the end of the shorter file and return 0 only after the last one. On the code the
  \<open>return 0\<close> of line 97 stands inside the loop body: the call returns after the first
  pair that is counted. With the lines 1, 2 in both files and two classes, only the pair
  of the first line is counted; cell \<open>(1, 1)\<close> of the second line stays 0.
\<close>

theorem load_returns_after_first_counted_pair:
  "build_conf_matrix_from_file (zero_state 2) [Some 1, Some 2] [Some 1, Some 2]
     = (Returned 0, \<lparr>num_classes = 2, confusion_matrix = Array2 [[1, 0], [0, 0]]\<rparr>)"
  by code_simp

text \<open>
  Whatever follows a pair that is counted is never read; and a load in which no pair is
  counted (no lines, or ground truth 0 on every line) returns \<open>None\<close>, not 0.
\<close>

lemma load_ignores_rest:
  "process_pair s pair = Return r s' \<Longrightarrow> load_loop s (pair # rest) = (Returned r, s')"
  by simp

lemma load_of_skipped_lines_returns_None:
  assumes "well_formed s"
    and "\<forall>pair \<in> set skipped. \<exists>c. pair = (Some 0, Some c) \<and> 1 \<le> c \<and> c \<le> 10000"
  shows "fst (load_loop s skipped) = ReturnedNone"
  using skipped_lines_reach [OF assms] by auto

text \<open>
  Claim C3 (the code departs from it): every pair of lines whose predicted label is
  outside \<open>[1, 10000]\<close> should make the load stop at that line and return \<open>- 1\<close>. On the
  code the \<open>return 0\<close> of line 97 ends the call at the first pair that is counted, so a
  predicted label on a later line is never checked. With two classes, the ground-truth
  lines 1, 1 and the classified lines 1, 0, the predicted label 0 of the second line is
  outside the range and the call returns 0, with the first pair counted.
\<close>

theorem invalid_label_after_counted_pair_is_not_checked:
  "build_conf_matrix_from_file (zero_state 2) [Some 1, Some 1] [Some 1, Some 0]
     = (Returned 0, \<lparr>num_classes = 2, confusion_matrix = Array2 [[1, 0], [0, 0]]\<rparr>)"
  by code_simp

text \<open>
  What the validation of lines 79 to 83 does give: at a line the load comes to, a predicted
  label outside \<open>[1, 10000]\<close> makes the call return \<open>- 1\<close>, nothing is raised and the
  accumulator is left as it was when the line was reached. The load comes to line \<open>i\<close>
  when the loop over the lines before it runs off their end, that is, when the load of
  the first \<open>i\<close> lines alone returns \<open>None\<close>; every one of those lines then has ground
  truth 0. A classified line that is not an integer at all (such as \<open>NaN\<close>) raises
  ValueError at line 78, before the validation.
\<close>

lemma load_returns_failure_at_reached_line:
  assumes "i < length ground_truth_file" and "i < length classified_file"
    and "ground_truth_file ! i = Some label_gt" and "classified_file ! i = Some label_cl"
    and "label_cl < 1 \<or> 10000 < label_cl"
    and "build_conf_matrix_from_file s (take i ground_truth_file) (take i classified_file)
           = (ReturnedNone, s_i)"
  shows "build_conf_matrix_from_file s ground_truth_file classified_file = (Returned (- 1), s_i)"
  using load_stops_at_invalid_label [OF assms(1-5)] assms(6)
  by (simp add: build_conf_matrix_from_file_def)

lemma load_returns_failure_at_reached_line_example:
  "build_conf_matrix_from_file (zero_state 3) [Some 0, Some 2, Some 1] [Some 5, Some 0, Some 1]
     = (Returned (- 1), \<lparr>num_classes = 5, confusion_matrix = Array2 (zero_table 5)\<rparr>)"
proof -
  have reach: "build_conf_matrix_from_file (zero_state 3)
      (take 1 [Some 0, Some 2, Some 1]) (take 1 [Some 5, Some 0, Some 1])
      = (ReturnedNone, \<lparr>num_classes = 5, confusion_matrix = Array2 (zero_table 5)\<rparr>)"
    by code_simp
  show ?thesis
    by (rule load_returns_failure_at_reached_line [where i = 1 and label_gt = 2 and label_cl = 0,
          OF _ _ _ _ _ reach]) simp_all
qed

lemma reached_lines_have_ground_truth_zero:
  "load_loop s lines = (ReturnedNone, s1) \<Longrightarrow> \<forall>pair \<in> set lines. fst pair = Some 0"
proof (induction lines arbitrary: s)
  case Nil
  then show ?case by simp
next
  case (Cons pair rest)
  show ?case
  proof (cases "process_pair s pair")
    case (Continue s')
    from process_pair_Continue [OF Continue] have "fst pair = Some 0" by auto
    moreover have "load_loop s' rest = (ReturnedNone, s1)"
      using Cons.prems Continue by simp
    ultimately show ?thesis using Cons.IH by simp
  next
    case (Return r s')
    then show ?thesis using Cons.prems by simp
  next
    case (Raise e s')
    then show ?thesis using Cons.prems by simp
  qed
qed

lemma unparsable_classified_line_raises:
  "build_conf_matrix_from_file (zero_state 2) [Some 1] [None] = (Raised ValueError, zero_state 2)"
  by code_simp

text \<open>
  Claim C4, as the code has it: a load that returns \<open>- 1\<close> has stopped at a line whose
  predicted label is outside \<open>[1, 10000]\<close>. The lines read before that one have already
  grown the table wherever one of their labels exceeded \<open>num_classes\<close>, and nothing undoes
  it: \<open>num_classes\<close> after the call is the largest of \<open>num_classes\<close> before the call and
  the labels on the earlier lines. It never decreases, and when the failing line is the
  first one the accumulator is unchanged.
\<close>

theorem failed_load_num_classes:
  assumes "build_conf_matrix_from_file s ground_truth_file classified_file = (Returned (- 1), s')"
  shows "\<exists>i. i < length ground_truth_file \<and> i < length classified_file
         \<and> (\<exists>g c. ground_truth_file ! i = Some g \<and> classified_file ! i = Some c
                  \<and> (c < 1 \<or> 10000 < c))
         \<and> (\<forall>j<i. \<exists>g c. ground_truth_file ! j = Some g \<and> classified_file ! j = Some c
                  \<and> 1 \<le> c \<and> c \<le> 10000 \<and> max g c \<le> num_classes s')
         \<and> num_classes s \<le> num_classes s'
         \<and> (num_classes s' = num_classes s
              \<or> (\<exists>j<i. \<exists>g c. ground_truth_file ! j = Some g \<and> classified_file ! j = Some c
                      \<and> num_classes s' = max g c))
         \<and> (i = 0 \<longrightarrow> s' = s)"
proof -
  let ?lines = "zip ground_truth_file classified_file"
  from load_loop_failure [of s ?lines s'] assms obtain i where i: "i < length ?lines"
    "\<exists>g c. ?lines ! i = (Some g, Some c) \<and> (c < 1 \<or> 10000 < c)"
    "\<forall>j<i. \<exists>c. ?lines ! j = (Some 0, Some c) \<and> 1 \<le> c \<and> c \<le> 10000 \<and> c \<le> num_classes s'"
    "num_classes s \<le> num_classes s'"
    "num_classes s' = num_classes s \<or> (\<exists>j<i. snd (?lines ! j) = Some (num_classes s'))"
    "i = 0 \<longrightarrow> s' = s"
    unfolding build_conf_matrix_from_file_def by blast
  have len: "i < length ground_truth_file" "i < length classified_file"
    using i(1) by simp_all
  have nth: "?lines ! j = (ground_truth_file ! j, classified_file ! j)" if "j \<le> i" for j
    using that len by simp
  have a: "\<exists>g c. ground_truth_file ! i = Some g \<and> classified_file ! i = Some c \<and> (c < 1 \<or> 10000 < c)"
    using i(2) nth [of i] by simp
  have skipped: "\<exists>c. ground_truth_file ! j = Some 0 \<and> classified_file ! j = Some c
      \<and> 1 \<le> c \<and> c \<le> 10000 \<and> c \<le> num_classes s'" if "j < i" for j
    using i(3) nth [of j] that by force
  have b: "\<forall>j<i. \<exists>g c. ground_truth_file ! j = Some g \<and> classified_file ! j = Some c
      \<and> 1 \<le> c \<and> c \<le> 10000 \<and> max g c \<le> num_classes s'"
  proof (intro allI impI)
    fix j assume "j < i"
    from skipped [OF this] obtain c where "ground_truth_file ! j = Some 0"
      "classified_file ! j = Some c" "1 \<le> c" "c \<le> 10000" "c \<le> num_classes s'"
      by blast
    moreover from this have "max 0 c \<le> num_classes s'" by simp
    ultimately show "\<exists>g c. ground_truth_file ! j = Some g \<and> classified_file ! j = Some c
      \<and> 1 \<le> c \<and> c \<le> 10000 \<and> max g c \<le> num_classes s'"
      by blast
  qed
  have c: "num_classes s' = num_classes s
      \<or> (\<exists>j<i. \<exists>g c. ground_truth_file ! j = Some g \<and> classified_file ! j = Some c
              \<and> num_classes s' = max g c)"
  proof (cases "num_classes s' = num_classes s")
    case True
    then show ?thesis by simp
  next
    case False
    then obtain j where j: "j < i" "snd (?lines ! j) = Some (num_classes s')"
      using i(5) by blast
    from skipped [OF j(1)] obtain c where c: "ground_truth_file ! j = Some 0"
      "classified_file ! j = Some c" "1 \<le> c"
      by blast
    have "c = num_classes s'" using j c(2) nth [of j] by simp
    then have "num_classes s' = max 0 c" using c(3) by simp
    then show ?thesis using j(1) c(1,2) by blast
  qed
  show ?thesis using len a b c i(4,6) by blast
qed

theorem failed_load_num_classes_witness:
  "build_conf_matrix_from_file (zero_state 3) [Some 0, Some 2] [Some 5, Some 0]
     = (Returned (- 1), \<lparr>num_classes = 5, confusion_matrix = Array2 (zero_table 5)\<rparr>)
   \<and> num_classes (zero_state 3) \<le> num_classes \<lparr>num_classes = 5, confusion_matrix = Array2 (zero_table 5)\<rparr>"
proof -
  have run: "build_conf_matrix_from_file (zero_state 3) [Some 0, Some 2] [Some 5, Some 0]
     = (Returned (- 1), \<lparr>num_classes = 5, confusion_matrix = Array2 (zero_table 5)\<rparr>)"
    by code_simp
  from failed_load_num_classes [OF run] show ?thesis using run by blast
qed

text \<open>
  With three classes, a first line with ground truth 0 and predicted label 5 and a second
  line with predicted label 0: the call returns \<open>- 1\<close> and \<open>num_classes\<close> has gone from 3
  to 5.
\<close>

theorem failed_load_changes_num_classes:
  "fst (build_conf_matrix_from_file (zero_state 3) [Some 0, Some 2] [Some 5, Some 0]) = Returned (- 1)
   \<and> num_classes (zero_state 3) = 3
   \<and> num_classes (snd (build_conf_matrix_from_file (zero_state 3) [Some 0, Some 2] [Some 5, Some 0])) = 5"
  by code_simp

text \<open>
  Claim C8, as the code has it: a pair of lines whose ground-truth label is 0 adds to no
  cell. If its predicted label is outside \<open>[1, 10000]\<close> the load returns \<open>- 1\<close> and the
  accumulator is unchanged. Otherwise the loop goes on to the next line; on a well-formed
  accumulator every cell reads the count it had, and the sum of the cells is the same.
  The table itself is unchanged only when the predicted label does not exceed
  \<open>num_classes\<close>: a larger predicted label has grown the table (lines 85 to 92 come
  before the test of line 94) to that many rows and columns, the new cells being 0.
\<close>

theorem ground_truth_zero_pair_counts_nothing:
  assumes "well_formed s"
  shows "(label_cl < 1 \<or> 10000 < label_cl \<longrightarrow>
            process_pair s (Some 0, Some label_cl) = Return (- 1) s)
       \<and> (1 \<le> label_cl \<and> label_cl \<le> 10000 \<longrightarrow>
            (\<exists>s'. process_pair s (Some 0, Some label_cl) = Continue s'
               \<and> well_formed s'
               \<and> num_classes s' = max (num_classes s) label_cl
               \<and> (label_cl \<le> num_classes s \<longrightarrow> s' = s)
               \<and> cells_sum (confusion_matrix s') = cells_sum (confusion_matrix s)
               \<and> (\<forall>g p. 0 \<le> g \<and> g < num_classes s' \<and> 0 \<le> p \<and> p < num_classes s' \<longrightarrow>
                     get_count s' g p =
                       (if g < num_classes s \<and> p < num_classes s then get_count s g p else Inr 0))))"
proof (intro conjI impI)
  assume "label_cl < 1 \<or> 10000 < label_cl"
  then show "process_pair s (Some 0, Some label_cl) = Return (- 1) s"
    by (rule process_pair_invalid)
next
  assume valid: "1 \<le> label_cl \<and> label_cl \<le> 10000"
  then have v: "1 \<le> label_cl" "label_cl \<le> 10000" by simp_all
  show "\<exists>s'. process_pair s (Some 0, Some label_cl) = Continue s'
               \<and> well_formed s'
               \<and> num_classes s' = max (num_classes s) label_cl
               \<and> (label_cl \<le> num_classes s \<longrightarrow> s' = s)
               \<and> cells_sum (confusion_matrix s') = cells_sum (confusion_matrix s)
               \<and> (\<forall>g p. 0 \<le> g \<and> g < num_classes s' \<and> 0 \<le> p \<and> p < num_classes s' \<longrightarrow>
                     get_count s' g p =
                       (if g < num_classes s \<and> p < num_classes s then get_count s g p else Inr 0))"
  proof (cases "num_classes s < label_cl")
    case True
    from resize_counts [OF assms True] obtain s' where s':
      "resize s label_cl = Inr s'" "well_formed s'" "num_classes s' = label_cl"
      "cells_sum (confusion_matrix s') = cells_sum (confusion_matrix s)"
      "\<forall>g p. 0 \<le> g \<and> g < label_cl \<and> 0 \<le> p \<and> p < label_cl \<longrightarrow>
         get_count s' g p =
           (if g < num_classes s \<and> p < num_classes s then get_count s g p else Inr 0)"
      by blast
    have "process_pair s (Some 0, Some label_cl) = Continue s'"
      using True s'(1) by (simp add: process_pair_skip [OF v])
    moreover have "num_classes s' = max (num_classes s) label_cl"
      using True s'(3) by simp
    ultimately show ?thesis using s'(2-5) True by (intro exI [of _ s']) simp
  next
    case False
    then have "process_pair s (Some 0, Some label_cl) = Continue s"
      by (simp add: process_pair_skip [OF v])
    moreover have "num_classes s = max (num_classes s) label_cl"
      using False by simp
    ultimately show ?thesis using assms by (intro exI [of _ s]) simp
  qed
qed

theorem ground_truth_zero_pair_counts_nothing_witness:
  "well_formed \<lparr>num_classes = 2, confusion_matrix = Array2 [[1, 2], [3, 4]]\<rparr>
   \<and> (\<exists>s'. process_pair \<lparr>num_classes = 2, confusion_matrix = Array2 [[1, 2], [3, 4]]\<rparr> (Some 0, Some 3)
              = Continue s'
         \<and> well_formed s' \<and> num_classes s' = 3
         \<and> cells_sum (confusion_matrix s') = 10
         \<and> get_count s' 1 1 = Inr 4 \<and> get_count s' 2 1 = Inr 0)"
proof -
  let ?s = "\<lparr>num_classes = 2, confusion_matrix = Array2 [[1, 2], [3, 4]]\<rparr>"
  have wf: "well_formed ?s"
    by (simp add: well_formed_def square_def)
  have old: "get_count ?s 1 1 = Inr 4"
    by (simp add: get_count_def np_getitem2.simps np_index_def)
  from ground_truth_zero_pair_counts_nothing [OF wf, of 3] obtain s' where s':
    "process_pair ?s (Some 0, Some 3) = Continue s'" "well_formed s'" "num_classes s' = 3"
    "cells_sum (confusion_matrix s') = 10"
    "\<forall>g p. 0 \<le> g \<and> g < 3 \<and> 0 \<le> p \<and> p < 3 \<longrightarrow>
       get_count s' g p = (if g < 2 \<and> p < 2 then get_count ?s g p else Inr 0)"
    by auto
  have "get_count s' 1 1 = Inr 4" "get_count s' 2 1 = Inr 0"
    using s'(5) [rule_format, of 1 1] s'(5) [rule_format, of 2 1] old by simp_all
  then show ?thesis using wf s'(1-4) by blast
qed

text \<open>
  With two classes and the line with ground truth 0 and predicted label 3, the table of
  two rows and columns is replaced by one of three.
\<close>

theorem ground_truth_zero_pair_grows_table:
  "process_pair \<lparr>num_classes = 2, confusion_matrix = Array2 [[1, 2], [3, 4]]\<rparr> (Some 0, Some 3)
     = Continue \<lparr>num_classes = 3, confusion_matrix = Array2 [[1, 2, 0], [3, 4, 0], [0, 0, 0]]\<rparr>
   \<and> Array2 [[1, 2, 0], [3, 4, 0], [0, 0, 0]] \<noteq> Array2 [[1, 2], [3, 4]]"
  by code_simp

section \<open>The rendered table\<close>

lemma digit_char_not_space: "d < 10 \<Longrightarrow> digit_char d \<noteq> CHR '' ''"
proof
  assume d: "d < 10" and eq: "digit_char d = CHR '' ''"
  have "of_char (digit_char d) = (48 + d :: nat)"
    using d by (simp add: digit_char_def)
  moreover have "of_char (CHR '' '') = (32 :: nat)" by simp
  ultimately show False using eq by simp
qed

lemma decimal_last: "decimal n \<noteq> [] \<and> last (decimal n) \<noteq> CHR '' ''"
proof (cases "n < 10")
  case True
  then show ?thesis by (subst (1 2) decimal.simps) (simp add: digit_char_not_space)
next
  case False
  have "n mod 10 < 10" by simp
  then show ?thesis using False
    by (subst (1 2) decimal.simps) (simp add: digit_char_not_space)
qed

lemma str_whole_last: "str_whole v \<noteq> [] \<and> last (str_whole v) \<noteq> CHR '' ''"
  using decimal_last [of "nat v"] decimal_last [of "nat (- v)"]
  by (simp add: str_whole_def)

lemma percent_f0_not_blank: "percent_f0 w v \<noteq> empty_cell w"
proof
  assume eq: "percent_f0 w v = empty_cell w"
  have "last (percent_f0 w v) = last (str_whole v)"
    using str_whole_last [of v] by (simp add: percent_f0_def percent_s_def)
  moreover have "percent_f0 w v \<noteq> []"
    using str_whole_last [of v] by (simp add: percent_f0_def percent_s_def)
  ultimately have "last (empty_cell w) \<noteq> CHR '' ''" "empty_cell w \<noteq> []"
    using eq str_whole_last [of v] by simp_all
  then show False by (simp add: empty_cell_def)
qed

lemma cm_cell_eq:
  assumes "square n m" "i < n" "j < n"
  shows "cm_cell (Array2 m) w hide_zeroes hide_diagonal hide_threshold (int i) (int j) =
     Inr (if (hide_zeroes \<and> m ! i ! j = 0) \<or> (hide_diagonal \<and> i = j) \<or> (\<exists>t. hide_threshold = Some t \<and> t \<noteq> 0 \<and> m ! i ! j \<le> t)
          then empty_cell w else percent_f0 w (m ! i ! j))"
  by (cases hide_threshold) (auto simp: cm_cell_def np_getitem2_nat [OF assms] Let_def)

lemma cm_row_eq:
  assumes "square n m" "i < n" "k \<le> n"
  shows "cm_row (Array2 m) w hide_zeroes hide_diagonal hide_threshold (int k) (int i) =
     Inr (map (\<lambda>j. if (hide_zeroes \<and> m ! i ! j = 0) \<or> (hide_diagonal \<and> i = j)
                        \<or> (\<exists>t. hide_threshold = Some t \<and> t \<noteq> 0 \<and> m ! i ! j \<le> t)
                     then empty_cell w else percent_f0 w (m ! i ! j)) [0..<k])"
proof -
  let ?cell = "\<lambda>j. if (hide_zeroes \<and> m ! i ! j = 0) \<or> (hide_diagonal \<and> i = j)
                        \<or> (\<exists>t. hide_threshold = Some t \<and> t \<noteq> 0 \<and> m ! i ! j \<le> t)
                     then empty_cell w else percent_f0 w (m ! i ! j)"
  have a: "comprehension (cm_cell (Array2 m) w hide_zeroes hide_diagonal hide_threshold (int i)) (py_range (int k))
      = Inr (map (\<lambda>j. ?cell (nat j)) (py_range (int k)))"
  proof (rule comprehension_map)
    fix x assume "x \<in> set (py_range (int k))"
    then obtain j where j: "x = int j" "j < k" by (auto simp: py_range_def)
    then have "j < n" using assms(3) by simp
    then show "cm_cell (Array2 m) w hide_zeroes hide_diagonal hide_threshold (int i) x = Inr (?cell (nat x))"
      unfolding j(1) by (simp only: cm_cell_eq [OF assms(1,2)] nat_int)
  qed
  have b: "map (\<lambda>j. ?cell (nat j)) (py_range (int k)) = map ?cell [0..<k]"
    by (simp only: py_range_def map_map comp_def nat_int)
  show ?thesis unfolding cm_row_def a b ..
qed

lemma cm_grid_eq:
  assumes "square n m" "length labels \<le> n"
  shows "cm_grid (Array2 m) labels hide_zeroes hide_diagonal hide_threshold =
     Inr (map (\<lambda>i. map (\<lambda>j. if (hide_zeroes \<and> m ! i ! j = 0) \<or> (hide_diagonal \<and> i = j)
                        \<or> (\<exists>t. hide_threshold = Some t \<and> t \<noteq> 0 \<and> m ! i ! j \<le> t)
                     then empty_cell (columnwidth labels) else percent_f0 (columnwidth labels) (m ! i ! j))
                   [0..<length labels]) [0..<length labels])"
proof -
  let ?row = "\<lambda>i. map (\<lambda>j. if (hide_zeroes \<and> m ! i ! j = 0) \<or> (hide_diagonal \<and> i = j)
                        \<or> (\<exists>t. hide_threshold = Some t \<and> t \<noteq> 0 \<and> m ! i ! j \<le> t)
                     then empty_cell (columnwidth labels) else percent_f0 (columnwidth labels) (m ! i ! j))
                   [0..<length labels]"
  have a: "comprehension (cm_row (Array2 m) (columnwidth labels) hide_zeroes hide_diagonal hide_threshold
            (int (length labels))) (py_range (int (length labels)))
      = Inr (map (\<lambda>i. ?row (nat i)) (py_range (int (length labels))))"
  proof (rule comprehension_map)
    fix x assume "x \<in> set (py_range (int (length labels)))"
    then obtain i where i: "x = int i" "i < length labels" by (auto simp: py_range_def)
    then have "i < n" using assms(2) by simp
    then show "cm_row (Array2 m) (columnwidth labels) hide_zeroes hide_diagonal hide_threshold
        (int (length labels)) x = Inr (?row (nat x))"
      unfolding i(1) by (simp only: cm_row_eq [OF assms(1) _ assms(2)] nat_int)
  qed
  have b: "map (\<lambda>i. ?row (nat i)) (py_range (int (length labels))) = map ?row [0..<length labels]"
    by (simp only: py_range_def map_map comp_def nat_int)
  show ?thesis unfolding cm_grid_def a b ..
qed

text \<open>
  Claim C9, as the code has it: on a well-formed accumulator and for a list of at most
  \<open>num_classes\<close> labels, \<open>print_cm\<close> returns the header line followed by one line per
  label, built from a grid of cell texts, and leaves the accumulator as it was. The cell
  \<open>(i, j)\<close> is blank padding exactly when \<open>hide_zeroes\<close> is set and the value is 0, or
  \<open>hide_diagonal\<close> is set and \<open>i = j\<close>, or \<open>hide_threshold\<close> is a number \<open>t\<close> other than
  0 and the value does not exceed \<open>t\<close>; every other cell is the formatted value. A
  threshold of 0 is false at line 120 and hides nothing.
\<close>

theorem print_cm_suppression:
  assumes "well_formed s" and "confusion_matrix s = Array2 m"
    and "int (length labels) \<le> num_classes s"
  shows "\<exists>grid. cm_grid (confusion_matrix s) labels hide_zeroes hide_diagonal hide_threshold = Inr grid
     \<and> print_cm s labels hide_zeroes hide_diagonal hide_threshold =
          (Inr (header_line labels @
                concat (map (\<lambda>(label1, cells). row_line (columnwidth labels) label1 cells)
                            (zip labels grid))), s)
     \<and> length grid = length labels
     \<and> (\<forall>i<length labels. length (grid ! i) = length labels
          \<and> (\<forall>j<length labels.
                (grid ! i ! j = empty_cell (columnwidth labels) \<longleftrightarrow>
                   (hide_zeroes \<and> m ! i ! j = 0) \<or> (hide_diagonal \<and> i = j)
                   \<or> (\<exists>t. hide_threshold = Some t \<and> t \<noteq> 0 \<and> m ! i ! j \<le> t))
              \<and> (grid ! i ! j \<noteq> empty_cell (columnwidth labels) \<longrightarrow>
                   grid ! i ! j = percent_f0 (columnwidth labels) (m ! i ! j))))"
proof -
  let ?w = "columnwidth labels"
  let ?hide = "\<lambda>i j. (hide_zeroes \<and> m ! i ! j = 0) \<or> (hide_diagonal \<and> i = j)
                   \<or> (\<exists>t. hide_threshold = Some t \<and> t \<noteq> 0 \<and> m ! i ! j \<le> t)"
  let ?grid = "map (\<lambda>i. map (\<lambda>j. if ?hide i j then empty_cell ?w else percent_f0 ?w (m ! i ! j))
                   [0..<length labels]) [0..<length labels]"
  have sq: "square (nat (num_classes s)) m" and len: "length labels \<le> nat (num_classes s)"
    using assms by (simp_all add: well_formed_def)
  have grid: "cm_grid (confusion_matrix s) labels hide_zeroes hide_diagonal hide_threshold = Inr ?grid"
    unfolding assms(2) by (rule cm_grid_eq [OF sq len])
  have out: "print_cm s labels hide_zeroes hide_diagonal hide_threshold =
      (Inr (header_line labels @
            concat (map (\<lambda>(label1, cells). row_line ?w label1 cells) (zip labels ?grid))), s)"
    unfolding print_cm_def grid by (simp only: and_then_Inr)
  have cells: "(?grid ! i ! j = empty_cell ?w \<longleftrightarrow> ?hide i j)
      \<and> (?grid ! i ! j \<noteq> empty_cell ?w \<longrightarrow> ?grid ! i ! j = percent_f0 ?w (m ! i ! j))"
    if "i < length labels" "j < length labels" for i j
  proof -
    have "?grid ! i ! j = (if ?hide i j then empty_cell ?w else percent_f0 ?w (m ! i ! j))"
      using that by (simp only: nth_map length_upt nth_upt minus_nat.diff_0 add_0)
    then show ?thesis using percent_f0_not_blank [of ?w "m ! i ! j"] by (cases "?hide i j") simp_all
  qed
  have rows: "length (?grid ! i) = length labels" if "i < length labels" for i
    using that by simp
  have "length ?grid = length labels" by simp
  with grid out rows cells show ?thesis by (intro exI [of _ ?grid]) (simp only: simp_thms, blast)
qed

theorem print_cm_suppression_witness:
  "well_formed \<lparr>num_classes = 2, confusion_matrix = Array2 [[0, 12], [3, 1234567]]\<rparr>
   \<and> (\<exists>grid. cm_grid (Array2 [[0, 12], [3, 1234567]]) [''a'', ''bcdefgh''] False True (Some 3) = Inr grid
        \<and> snd (print_cm \<lparr>num_classes = 2, confusion_matrix = Array2 [[0, 12], [3, 1234567]]\<rparr>
                  [''a'', ''bcdefgh''] False True (Some 3))
            = \<lparr>num_classes = 2, confusion_matrix = Array2 [[0, 12], [3, 1234567]]\<rparr>
        \<and> grid ! 0 ! 0 = empty_cell (columnwidth [''a'', ''bcdefgh''])
        \<and> grid ! 1 ! 0 = empty_cell (columnwidth [''a'', ''bcdefgh''])
        \<and> grid ! 0 ! 1 = percent_f0 (columnwidth [''a'', ''bcdefgh'']) 12)"
proof -
  let ?m = "[[0, 12], [3, 1234567 :: int]]"
  let ?s = "\<lparr>num_classes = 2, confusion_matrix = Array2 ?m\<rparr>"
  let ?labels = "[''a'', ''bcdefgh'']"
  have wf: "well_formed ?s"
    by (simp add: well_formed_def square_def)
  have cm: "confusion_matrix ?s = Array2 ?m" by simp
  have len: "int (length ?labels) \<le> num_classes ?s" by simp
  from print_cm_suppression [OF wf cm len, of False True "Some 3"] obtain grid where g:
    "cm_grid (Array2 ?m) ?labels False True (Some 3) = Inr grid"
    "snd (print_cm ?s ?labels False True (Some 3)) = ?s"
    "\<forall>i<2. \<forall>j<2.
        (grid ! i ! j = empty_cell (columnwidth ?labels) \<longleftrightarrow> i = j \<or> ?m ! i ! j \<le> 3)
      \<and> (grid ! i ! j \<noteq> empty_cell (columnwidth ?labels) \<longrightarrow>
           grid ! i ! j = percent_f0 (columnwidth ?labels) (?m ! i ! j))"
    by auto
  have "grid ! 0 ! 0 = empty_cell (columnwidth ?labels)"
    using g(3) [rule_format, of 0 0] by simp
  moreover have "grid ! 1 ! 0 = empty_cell (columnwidth ?labels)"
    using g(3) [rule_format, of 1 0] by simp
  moreover have "grid ! 0 ! 1 = percent_f0 (columnwidth ?labels) 12"
    using g(3) [rule_format, of 0 1] by simp
  ultimately show ?thesis using wf g(1,2) by blast
qed

text \<open>
  With \<open>hide_threshold = 0\<close> the cell holding 0 does not exceed the threshold and is
  printed all the same.
\<close>

theorem print_cm_threshold_zero_hides_nothing:
  "print_cm \<lparr>num_classes = 1, confusion_matrix = Array2 [[0]]\<rparr> [''a''] False False (Some 0)
     = (Inr (''              a '' @ newline @ ''        a     0 '' @ newline),
        \<lparr>num_classes = 1, confusion_matrix = Array2 [[0]]\<rparr>)
   \<and> cm_grid (Array2 [[0]]) [''a''] False False (Some 0) = Inr [[''    0'']]
   \<and> ''    0'' \<noteq> empty_cell (columnwidth [''a''])
   \<and> get_count \<lparr>num_classes = 1, confusion_matrix = Array2 [[0]]\<rparr> 0 0 = Inr 0
   \<and> (0 :: int) \<le> 0"
  by code_simp

end
